theory Spec2Isabelle
  imports Main "HOL-Library.Char_ord" "HOL-Library.List_Lexorder"
begin

section \<open>Path strings\<close>

text \<open>
  Paths are Python \<open>str\<close> values, modelled as \<open>string\<close>. The server runs on a POSIX
  system, so \<open>os.path\<close> is \<open>posixpath\<close> and \<open>Path\<close> is \<open>PosixPath\<close>; the separator
  is the slash. The functions of this section are the parts of the standard library that
  \<open>sqlite_metadata_manager.py\<close> and \<open>metadata_cleanup_manager.py\<close> call on path strings.
\<close>

definition sep :: char where
  "sep = CHR ''/''"

text \<open>\<open>s.split('/')\<close>: the pieces between separators; never the empty list.\<close>

fun split_sep :: "string \<Rightarrow> string list" where
  "split_sep [] = [[]]"
| "split_sep (c # cs) =
     (if c = sep then [] # split_sep cs
      else (case split_sep cs of [] \<Rightarrow> [[c]] | w # ws \<Rightarrow> (c # w) # ws))"

text \<open>\<open>'/'.join(parts)\<close>.\<close>

fun join_sep :: "string list \<Rightarrow> string" where
  "join_sep [] = []"
| "join_sep [x] = x"
| "join_sep (x # y # ys) = x @ sep # join_sep (y # ys)"

text \<open>\<open>s.lstrip('/')\<close> and \<open>s.rstrip('/')\<close>.\<close>

definition lstrip_sep :: "string \<Rightarrow> string" where
  "lstrip_sep s = dropWhile (\<lambda>c. c = sep) s"

definition rstrip_sep :: "string \<Rightarrow> string" where
  "rstrip_sep s = rev (dropWhile (\<lambda>c. c = sep) (rev s))"

text \<open>
  \<open>posixpath.dirname\<close>: \<open>i = p.rfind('/') + 1; head = p[:i]\<close>, and the trailing slashes
  of \<open>head\<close> are stripped unless \<open>head\<close> consists of slashes only.
\<close>

definition dirname :: "string \<Rightarrow> string" where
  "dirname p =
     (let head = rev (dropWhile (\<lambda>c. c \<noteq> sep) (rev p))
      in if head \<noteq> [] \<and> filter (\<lambda>c. c \<noteq> sep) head \<noteq> [] then rstrip_sep head else head)"

text \<open>\<open>posixpath.basename\<close>: \<open>p[i:]\<close> for the same \<open>i\<close>.\<close>

definition basename :: "string \<Rightarrow> string" where
  "basename p = rev (takeWhile (\<lambda>c. c \<noteq> sep) (rev p))"

text \<open>
  \<open>PurePosixPath(s)\<close> keeps a root (\<open>''\<close>, \<open>'/'\<close>, or \<open>'//'\<close> when the string starts with
  exactly two slashes) and the list of components; empty components and \<open>'.'\<close> are
  dropped, \<open>'..'\<close> is kept.
\<close>

type_synonym pure_path = "string \<times> string list"

definition splitroot :: "string \<Rightarrow> string \<times> string" where
  "splitroot part =
     (if part \<noteq> [] \<and> hd part = sep then
        (let stripped = lstrip_sep part
         in if length part - length stripped = 2 then ([sep, sep], stripped)
            else ([sep], stripped))
      else ([], part))"

definition parse_path :: "string \<Rightarrow> pure_path" where
  "parse_path s =
     (case splitroot s of
        (root, rel) \<Rightarrow> (root, filter (\<lambda>x. x \<noteq> [] \<and> x \<noteq> ''.'') (split_sep rel)))"

text \<open>\<open>str(path)\<close>: root and joined components, or \<open>'.'\<close> when both are empty.\<close>

definition path_str :: "pure_path \<Rightarrow> string" where
  "path_str P = (case P of (root, tail) \<Rightarrow>
     (if root = [] \<and> tail = [] then ''.'' else root @ join_sep tail))"

text \<open>\<open>path.parent\<close>: the path itself when it has no component, else the last one dropped.\<close>

definition path_parent :: "pure_path \<Rightarrow> pure_path" where
  "path_parent P = (case P of (root, tail) \<Rightarrow>
     (if tail = [] then (root, tail) else (root, butlast tail)))"

text \<open>The expression \<open>str(Path(directory_path).parent)\<close> of \<open>get_directory_permission\<close>.\<close>

definition parent_dir :: "string \<Rightarrow> string" where
  "parent_dir d = path_str (path_parent (parse_path d))"

text \<open>\<open>str(Path(root) / p)\<close>: a rooted \<open>p\<close> replaces the left path.\<close>

definition path_join :: "pure_path \<Rightarrow> pure_path \<Rightarrow> pure_path" where
  "path_join P Q = (if fst Q \<noteq> [] then Q else (fst P, snd P @ snd Q))"

definition full_path_of :: "string \<Rightarrow> string \<Rightarrow> string" where
  "full_path_of root p = path_str (path_join (parse_path root) (parse_path p))"

text \<open>
  What \<open>parse_path\<close> returns: one of the three roots, and components that are not
  empty, not \<open>'.'\<close> and free of slashes. On such a pair, printing and parsing again
  gives the pair back; the recursion of \<open>get_directory_permission\<close> rests on this.
\<close>

definition valid_comp :: "string \<Rightarrow> bool" where
  "valid_comp x = (x \<noteq> [] \<and> x \<noteq> ''.'' \<and> sep \<notin> set x)"

definition valid_root :: "string \<Rightarrow> bool" where
  "valid_root r = (r = [] \<or> r = [sep] \<or> r = [sep, sep])"

text \<open>
  A bound on the number of calls that a lookup starting at \<open>d\<close> makes: one per
  component, one for the top, and one more when \<open>d\<close> is not spelled the way
  \<open>str(Path(d))\<close> prints it.
\<close>

definition walk_depth :: "string \<Rightarrow> nat" where
  "walk_depth d =
     length (snd (parse_path d)) + (if path_str (parse_path d) = d then 1 else 2)"

text \<open>\<open>pattern in s\<close> on strings, and \<open>s.endswith(suffix)\<close>.\<close>

fun str_in :: "string \<Rightarrow> string \<Rightarrow> bool" where
  "str_in pattern [] = (pattern = [])"
| "str_in pattern (c # cs) = (take (length pattern) (c # cs) = pattern \<or> str_in pattern cs)"

definition endswith :: "string \<Rightarrow> string \<Rightarrow> bool" where
  "endswith s suffix =
     (length suffix \<le> length s \<and> drop (length s - length suffix) s = suffix)"

text \<open>The slice \<open>xs[:n]\<close>; a negative \<open>n\<close> counts from the end.\<close>

definition slice_to :: "int \<Rightarrow> 'a list \<Rightarrow> 'a list" where
  "slice_to n xs = (if 0 \<le> n then take (nat n) xs else take (nat (int (length xs) + n)) xs)"

section \<open>The metadata store\<close>

text \<open>
  \<open>FileMetadata\<close> is the dataclass of \<open>sqlite_metadata_manager.py\<close>; its fields \<open>size\<close>
  and \<open>notes\<close> are called \<open>file_size\<close> and \<open>file_notes\<close> here.
\<close>

record FileMetadata =
  filename :: string
  file_size :: int
  upload_time :: string
  last_modified :: string
  is_public :: bool
  content_type :: string
  created_by :: "string option"
  tags :: "string list"
  description :: string
  file_notes :: string
  original_url :: "string option"
  locked :: bool

text \<open>
  The tables of the schema, one record per row, the columns in the order of the schema.
  Integer columns holding a flag keep the integer; \<open>NULL\<close> is \<open>None\<close>.
\<close>

record file_metadata_row =
  fm_id :: nat
  fm_filename :: string
  fm_file_path :: string
  fm_size :: int
  fm_upload_time :: string
  fm_last_modified :: string
  fm_is_public :: int
  fm_content_type :: string
  fm_created_by :: "string option"
  fm_description :: string
  fm_notes :: string
  fm_original_url :: "string option"
  fm_locked :: int
  fm_created_at :: string
  fm_updated_at :: string

record file_tags_row =
  ft_id :: nat
  ft_file_id :: nat
  ft_tag :: string
  ft_created_at :: string

record directory_metadata_row =
  dm_id :: nat
  dm_directory_path :: string
  dm_is_public :: "int option"
  dm_locked :: int
  dm_description :: string
  dm_created_by :: "string option"
  dm_created_at :: string
  dm_updated_at :: string

text \<open>The exceptions that reach the functions modelled here.\<close>

datatype exn = IntegrityError | OverflowError | OperationalError | OSError

text \<open>
  The messages that \<open>check_consistency\<close> appends to its \<open>errors\<close> list, one constructor
  per format string, with the path and the exception it interpolates.
\<close>

datatype check_error =
    CheckFileError string exn
  | CheckMetadataError string exn
  | ConsistencyCheckFailed exn

text \<open>
  \<open>CleanupResult\<close> of \<open>metadata_cleanup_manager.py\<close>. Its \<open>details\<close> dictionary has a
  fixed set of possible keys: each is an optional field here. The field \<open>errors\<close> is
  called \<open>error_count\<close>, and \<open>duration\<close> is kept in microseconds.
\<close>

record cleanup_details =
  details_errors :: "check_error list option"
  details_backup :: "(string \<times> nat) option"
  details_dry_run :: "bool option"
  details_would_clean :: "nat option"
  details_orphan_files :: "string list option"
  details_cleanup_error :: "exn option"

record CleanupResult =
  cleanup_type :: string
  files_checked :: nat
  orphans_found :: nat
  orphans_cleaned :: nat
  error_count :: nat
  start_time :: string
  end_time :: string
  details :: cleanup_details
  duration :: int

text \<open>
  The database: each table is the list of its rows in insertion order, and the two
  \<open>AUTOINCREMENT\<close> counters of \<open>sqlite_sequence\<close> hold the largest id handed out so far.
  A row of \<open>cleanup_log\<close> is the \<open>CleanupResult\<close> it was written from.
\<close>

record store =
  file_metadata :: "file_metadata_row list"
  file_tags :: "file_tags_row list"
  directory_metadata :: "directory_metadata_row list"
  cleanup_log :: "CleanupResult list"
  seq_file_metadata :: nat
  seq_file_tags :: nat

text \<open>\<open>int(b)\<close> of a \<open>bool\<close> and \<open>bool(n)\<close> of an integer column.\<close>

definition int_of_bool :: "bool \<Rightarrow> int" where
  "int_of_bool b = (if b then 1 else 0)"

definition bool_of_int :: "int \<Rightarrow> bool" where
  "bool_of_int n = (n \<noteq> 0)"

text \<open>A Python \<open>int\<close> is bound to an \<open>INTEGER\<close> column only if it fits 64 bits.\<close>

definition int64_ok :: "int \<Rightarrow> bool" where
  "int64_ok n = (- (2 ^ 63) \<le> n \<and> n < 2 ^ 63)"

text \<open>\<open>_get_file_id\<close>: the id of the first row with the path.\<close>

definition get_file_id :: "store \<Rightarrow> string \<Rightarrow> nat option" where
  "get_file_id s file_path =
     map_option fm_id (find (\<lambda>r. fm_file_path r = file_path) (file_metadata s))"

text \<open>
  The loop \<open>for tag in metadata.tags: INSERT INTO file_tags ...\<close>. The table has
  \<open>UNIQUE(file_id, tag)\<close>, so an insert of a pair already present raises.
\<close>

fun insert_tags :: "nat \<Rightarrow> string \<Rightarrow> string list \<Rightarrow> store \<Rightarrow> exn + store" where
  "insert_tags fid now [] s = Inr s"
| "insert_tags fid now (t # ts) s =
     (if filter (\<lambda>r. ft_file_id r = fid \<and> ft_tag r = t) (file_tags s) \<noteq> []
      then Inl IntegrityError
      else insert_tags fid now ts
             (s\<lparr>file_tags := file_tags s @
                    [\<lparr>ft_id = Suc (seq_file_tags s), ft_file_id = fid, ft_tag = t,
                      ft_created_at = now\<rparr>],
                 seq_file_tags := Suc (seq_file_tags s)\<rparr>))"

text \<open>The \<open>UPDATE file_metadata SET ... WHERE id = ?\<close> of \<open>save_metadata\<close> on one row.\<close>

definition update_row :: "string \<Rightarrow> FileMetadata \<Rightarrow> file_metadata_row \<Rightarrow> file_metadata_row" where
  "update_row now m r =
     r\<lparr>fm_filename := filename m, fm_size := file_size m, fm_upload_time := upload_time m,
       fm_last_modified := last_modified m, fm_is_public := int_of_bool (is_public m),
       fm_content_type := content_type m, fm_created_by := created_by m,
       fm_description := description m, fm_notes := file_notes m,
       fm_original_url := original_url m, fm_locked := int_of_bool (locked m),
       fm_updated_at := now\<rparr>"

text \<open>The row of the \<open>INSERT INTO file_metadata\<close> of \<open>save_metadata\<close>.\<close>

definition new_row :: "nat \<Rightarrow> string \<Rightarrow> string \<Rightarrow> FileMetadata \<Rightarrow> file_metadata_row" where
  "new_row i now file_path m =
     \<lparr>fm_id = i, fm_filename = filename m, fm_file_path = file_path, fm_size = file_size m,
      fm_upload_time = upload_time m, fm_last_modified = last_modified m,
      fm_is_public = int_of_bool (is_public m), fm_content_type = content_type m,
      fm_created_by = created_by m, fm_description = description m, fm_notes = file_notes m,
      fm_original_url = original_url m, fm_locked = int_of_bool (locked m),
      fm_created_at = now, fm_updated_at = now\<rparr>"

text \<open>
  \<open>save_metadata\<close>. The clock reading \<open>datetime.now().isoformat()\<close> is the argument
  \<open>now\<close>. The function assigns \<open>metadata.last_modified = now\<close> on the caller's object, so
  the model returns the record next to the new store. An exception leaves the
  transaction uncommitted: the caller keeps the old store.
\<close>

definition save_metadata ::
    "string \<Rightarrow> string \<Rightarrow> FileMetadata \<Rightarrow> store \<Rightarrow> exn + (FileMetadata \<times> store)" where
  "save_metadata now file_path metadata s =
     (let metadata = metadata\<lparr>last_modified := now\<rparr>;
          file_id = (case get_file_id s file_path of None \<Rightarrow> 0 | Some i \<Rightarrow> i)
      in if file_id \<noteq> 0 then
           (if \<not> int64_ok (file_size metadata) then Inl OverflowError
            else
              (let s1 = s\<lparr>file_metadata :=
                           map (\<lambda>r. if fm_id r = file_id then update_row now metadata r else r)
                               (file_metadata s)\<rparr>;
                   s2 = s1\<lparr>file_tags := filter (\<lambda>t. ft_file_id t \<noteq> file_id) (file_tags s1)\<rparr>
               in case insert_tags file_id now (tags metadata) s2 of
                    Inl e \<Rightarrow> Inl e
                  | Inr s3 \<Rightarrow> Inr (metadata, s3)))
         else
           (if \<not> int64_ok (file_size metadata) then Inl OverflowError
            else if filter (\<lambda>r. fm_file_path r = file_path) (file_metadata s) \<noteq> []
            then Inl IntegrityError
            else
              (let file_id = Suc (seq_file_metadata s);
                   s1 = s\<lparr>file_metadata := file_metadata s @ [new_row file_id now file_path metadata],
                          seq_file_metadata := file_id\<rparr>
               in case insert_tags file_id now (tags metadata) s1 of
                    Inl e \<Rightarrow> Inl e
                  | Inr s2 \<Rightarrow> Inr (metadata, s2))))"

text \<open>\<open>load_metadata\<close>; \<open>ORDER BY tag\<close> compares the strings byte by byte.\<close>

definition load_metadata :: "store \<Rightarrow> string \<Rightarrow> FileMetadata option" where
  "load_metadata s file_path =
     (case find (\<lambda>r. fm_file_path r = file_path) (file_metadata s) of
        None \<Rightarrow> None
      | Some row \<Rightarrow>
          (let file_id = (case get_file_id s file_path of None \<Rightarrow> 0 | Some i \<Rightarrow> i);
               tags = (if file_id \<noteq> 0
                       then sort (map ft_tag (filter (\<lambda>t. ft_file_id t = file_id) (file_tags s)))
                       else [])
           in Some \<lparr>filename = fm_filename row, file_size = fm_size row,
                    upload_time = fm_upload_time row, last_modified = fm_last_modified row,
                    is_public = bool_of_int (fm_is_public row),
                    content_type = fm_content_type row, created_by = fm_created_by row,
                    tags = tags, description = fm_description row, file_notes = fm_notes row,
                    original_url = fm_original_url row,
                    locked = bool_of_int (fm_locked row)\<rparr>))"

text \<open>
  What SQLite keeps true of the two tables: the ids of \<open>file_metadata\<close> are positive and
  none is larger than the \<open>AUTOINCREMENT\<close> counter, which never goes back; and since a
  tag row is only ever inserted for the id of a row that exists then, no tag row names an
  id beyond the counter either. (Foreign keys are not switched on, so a tag row may
  outlive its file row.) \<open>save_metadata\<close> keeps it (lemma \<open>save_metadata_store_ok\<close>).
\<close>

definition store_ok :: "store \<Rightarrow> bool" where
  "store_ok s = ((\<forall>t\<in>set (file_tags s). ft_file_id t \<le> seq_file_metadata s)
     \<and> (\<forall>r\<in>set (file_metadata s). 0 < fm_id r \<and> fm_id r \<le> seq_file_metadata s))"

section \<open>Directory permissions\<close>

text \<open>
  The query of \<open>get_directory_permission\<close> with its test
  \<open>row and row[0] is not None\<close>: the setting stored under exactly this path string.
\<close>

definition directory_setting :: "store \<Rightarrow> string \<Rightarrow> bool option" where
  "directory_setting s directory_path =
     (case find (\<lambda>r. dm_directory_path r = directory_path) (directory_metadata s) of
        None \<Rightarrow> None
      | Some row \<Rightarrow> map_option bool_of_int (dm_is_public row))"

subsection \<open>What the recursion rests on\<close>

lemma split_sep_no_sep: "x \<in> set (split_sep s) \<Longrightarrow> sep \<notin> set x"
  by (induction s arbitrary: x) (auto split: list.splits if_splits)

lemma split_sep_single: "sep \<notin> set x \<Longrightarrow> split_sep x = [x]"
  by (induction x) (auto split: list.splits)

lemma split_sep_append: "sep \<notin> set x \<Longrightarrow> split_sep (x @ sep # rest) = x # split_sep rest"
  by (induction x) (auto split: list.splits)

lemma split_join:
  "cs \<noteq> [] \<Longrightarrow> \<forall>x\<in>set cs. sep \<notin> set x \<Longrightarrow> split_sep (join_sep cs) = cs"
  by (induction cs rule: join_sep.induct) (auto simp: split_sep_single split_sep_append)

lemma hd_not_sep: "x \<noteq> [] \<Longrightarrow> sep \<notin> set x \<Longrightarrow> hd x \<noteq> sep"
  by (cases x) auto

lemma join_sep_hd:
  "cs \<noteq> [] \<Longrightarrow> \<forall>x\<in>set cs. valid_comp x \<Longrightarrow> join_sep cs \<noteq> [] \<and> hd (join_sep cs) \<noteq> sep"
  by (induction cs rule: join_sep.induct) (auto simp: valid_comp_def hd_not_sep)

lemma splitroot_rel:
  assumes "rel = [] \<or> hd rel \<noteq> sep"
  shows "splitroot rel = ([], rel)"
    and "splitroot (sep # rel) = ([sep], rel)"
    and "splitroot (sep # sep # rel) = ([sep, sep], rel)"
  using assms by (cases rel; auto simp: splitroot_def lstrip_sep_def Let_def)+

lemma parse_path_str:
  assumes "valid_root r" and "\<forall>x\<in>set cs. valid_comp x"
  shows "parse_path (path_str (r, cs)) = (r, cs)"
proof (cases "cs = []")
  case True
  then show ?thesis
    using assms(1)
    by (auto simp: valid_root_def path_str_def parse_path_def splitroot_def lstrip_sep_def sep_def)
next
  case False
  have h: "join_sep cs = [] \<or> hd (join_sep cs) \<noteq> sep"
    using join_sep_hd [OF False assms(2)] by simp
  have s: "split_sep (join_sep cs) = cs"
    using split_join [OF False] assms(2) by (simp add: valid_comp_def)
  have f: "filter (\<lambda>x. x \<noteq> [] \<and> x \<noteq> ''.'') cs = cs"
    using assms(2) by (auto simp: valid_comp_def filter_id_conv)
  show ?thesis
    using assms(1) False splitroot_rel [OF h] s f
    by (auto simp: valid_root_def path_str_def parse_path_def)
qed

lemma splitroot_valid: "splitroot s = (r, rel) \<Longrightarrow> valid_root r"
  by (auto simp: splitroot_def valid_root_def Let_def split: if_splits)

lemma parse_path_valid:
  assumes "parse_path s = (r, cs)"
  shows "valid_root r" and "\<forall>x\<in>set cs. valid_comp x"
  using assms
  by (auto simp: parse_path_def valid_comp_def split: prod.splits
           dest: splitroot_valid split_sep_no_sep)

lemma parse_parent_dir: "parse_path (parent_dir d) = path_parent (parse_path d)"
proof -
  obtain r cs where p: "parse_path d = (r, cs)" by (cases "parse_path d")
  note v = parse_path_valid [OF p]
  have "\<forall>x\<in>set (butlast cs). valid_comp x"
    using v(2) by (auto dest: in_set_butlastD)
  then have "parse_path (path_str (r, butlast cs)) = (r, butlast cs)"
    using parse_path_str [OF v(1)] by simp
  moreover have "parse_path (path_str (r, cs)) = (r, cs)"
    using parse_path_str [OF v] .
  ultimately show ?thesis
    using p by (cases "cs = []") (simp_all add: parent_dir_def path_parent_def)
qed

lemma path_str_parent_dir: "path_str (parse_path (parent_dir d)) = parent_dir d"
  by (simp add: parse_parent_dir) (simp add: parent_dir_def)

lemma parent_dir_decreases:
  assumes "parent_dir d \<noteq> d"
  shows "walk_depth (parent_dir d) < walk_depth d"
proof -
  obtain r cs where p: "parse_path d = (r, cs)" by (cases "parse_path d")
  have q: "parse_path (parent_dir d) = path_parent (r, cs)"
    using parse_parent_dir [of d] p by simp
  show ?thesis
  proof (cases "cs = []")
    case True
    then have "parent_dir d = path_str (parse_path d)"
      using p by (simp add: parent_dir_def path_parent_def)
    then show ?thesis
      using assms p q True path_str_parent_dir [of d]
      by (simp add: walk_depth_def path_parent_def)
  next
    case False
    then show ?thesis
      using p q path_str_parent_dir [of d]
      by (cases cs) (simp_all add: walk_depth_def path_parent_def)
  qed
qed

subsection \<open>The lookup\<close>

text \<open>
  \<open>get_directory_permission\<close>: the setting stored under the path string itself, else
  the answer for \<open>str(Path(directory_path).parent)\<close>, unless that is the same string.
\<close>

function get_directory_permission :: "store \<Rightarrow> string \<Rightarrow> bool option" where
  "get_directory_permission s directory_path =
     (if directory_path = [] \<or> directory_path = ''.'' then None
      else case directory_setting s directory_path of
             Some b \<Rightarrow> Some b
           | None \<Rightarrow>
               (if parent_dir directory_path \<noteq> directory_path
                then get_directory_permission s (parent_dir directory_path)
                else None))"
  by pat_completeness auto
termination
  by (relation "measure (\<lambda>(s, d). walk_depth d)") (auto simp: parent_dir_decreases)

text \<open>
  The same lookup with a counter for the calls still allowed: \<open>None\<close> means that the
  counter ran out before the lookup returned.
\<close>

fun lookup_within :: "nat \<Rightarrow> store \<Rightarrow> string \<Rightarrow> bool option option" where
  "lookup_within 0 s directory_path = None"
| "lookup_within (Suc n) s directory_path =
     (if directory_path = [] \<or> directory_path = ''.'' then Some None
      else case directory_setting s directory_path of
             Some b \<Rightarrow> Some (Some b)
           | None \<Rightarrow>
               (if parent_dir directory_path \<noteq> directory_path
                then lookup_within n s (parent_dir directory_path)
                else Some None))"

text \<open>
  The directories above \<open>d\<close>, nearest first: the parent, the parent's parent and so on,
  until the parent no longer changes or is the storage root \<open>'.'\<close>, for which no setting
  is ever consulted. The counter bounds the length of the list; \<open>walk_depth\<close> is enough
  (lemma \<open>ancestors_within_stable\<close>).
\<close>

fun ancestors_within :: "nat \<Rightarrow> string \<Rightarrow> string list" where
  "ancestors_within 0 d = []"
| "ancestors_within (Suc n) d =
     (if parent_dir d = d \<or> parent_dir d = ''.'' then []
      else parent_dir d # ancestors_within n (parent_dir d))"

definition ancestors :: "string \<Rightarrow> string list" where
  "ancestors d = ancestors_within (walk_depth d) d"

text \<open>The first setting found along a list of directories.\<close>

fun first_setting :: "store \<Rightarrow> string list \<Rightarrow> bool option" where
  "first_setting s [] = None"
| "first_setting s (d # ds) =
     (case directory_setting s d of Some b \<Rightarrow> Some b | None \<Rightarrow> first_setting s ds)"

text \<open>
  The strings that the lookup made by \<open>create_metadata\<close> compares with
  \<open>directory_path\<close>, in the order of the calls: \<open>os.path.dirname(file_path)\<close>, then what
  \<open>str(Path(...).parent)\<close> makes of it, and so on.
\<close>

definition lookup_chain :: "string \<Rightarrow> string list" where
  "lookup_chain file_path =
     (if dirname file_path = [] \<or> dirname file_path = ''.'' then []
      else dirname file_path # ancestors (dirname file_path))"

text \<open>
  The parent directory chain of a file path, as the specification speaks of it: the
  directories that contain the file, nearest first, each named by its path below the
  storage root. It is read off the pieces between the slashes alone. An empty piece and
  \<open>'.'\<close> name no directory of their own and are passed over; \<open>'..'\<close> is not followed,
  since where it leads depends on the links of the file system.
\<close>

definition path_components :: "string \<Rightarrow> string list" where
  "path_components p = filter (\<lambda>c. c \<noteq> [] \<and> c \<noteq> ''.'') (split_sep p)"

definition directory_chain :: "string \<Rightarrow> string list" where
  "directory_chain p =
     (let ds = butlast (path_components p)
      in map (\<lambda>k. join_sep (take k ds)) (rev [1..<Suc (length ds)]))"

text \<open>
  A path written in plain components: between its slashes stand names only, none of them
  empty, \<open>'.'\<close> or \<open>'..'\<close>. This is how \<open>os.path.normpath\<close> prints a path that stays
  below the storage root.
\<close>

definition plain_path :: "string \<Rightarrow> bool" where
  "plain_path p = (\<forall>c\<in>set (split_sep p). c \<noteq> [] \<and> c \<noteq> ''.'' \<and> c \<noteq> ''..'')"

text \<open>
  \<open>create_metadata\<close>. It reads the clock once itself (\<open>now\<close>) and once more inside
  \<open>save_metadata\<close> (\<open>save_now\<close>). The optional arguments \<open>content_type\<close> and \<open>tags\<close> go
  through \<open>x or default\<close>, which also replaces an empty value.
\<close>

definition create_metadata ::
    "string \<Rightarrow> string \<Rightarrow> string \<Rightarrow> int \<Rightarrow> bool \<Rightarrow> string option \<Rightarrow> string option \<Rightarrow>
     string list option \<Rightarrow> string \<Rightarrow> string \<Rightarrow> bool \<Rightarrow> store \<Rightarrow> exn + (FileMetadata \<times> store)" where
  "create_metadata now save_now file_path size_arg is_public_arg content_type_arg created_by_arg
       tags_arg description_arg notes_arg locked_arg s =
     (let inherited_permission = get_directory_permission s (dirname file_path);
          metadata =
            \<lparr>filename = basename file_path, file_size = size_arg, upload_time = now,
             last_modified = now,
             is_public = (case inherited_permission of Some b \<Rightarrow> b | None \<Rightarrow> is_public_arg),
             content_type = (case content_type_arg of
                               None \<Rightarrow> ''application/octet-stream''
                             | Some c \<Rightarrow> if c = [] then ''application/octet-stream'' else c),
             created_by = created_by_arg,
             tags = (case tags_arg of None \<Rightarrow> [] | Some ts \<Rightarrow> ts),
             description = description_arg, file_notes = notes_arg, original_url = None,
             locked = locked_arg\<rparr>
      in save_metadata save_now file_path metadata s)"

text \<open>
  What a call of \<open>create_metadata\<close> has decided: the \<open>is_public\<close> of the record it
  returns, and the \<open>is_public\<close> then found under the path in the store it leaves.
\<close>

definition returned_is_public :: "exn + (FileMetadata \<times> store) \<Rightarrow> bool option" where
  "returned_is_public r = (case r of Inl e \<Rightarrow> None | Inr (m, s') \<Rightarrow> Some (is_public m))"

definition stored_is_public :: "string \<Rightarrow> exn + (FileMetadata \<times> store) \<Rightarrow> bool option" where
  "stored_is_public file_path r =
     (case r of Inl e \<Rightarrow> None
      | Inr (m, s') \<Rightarrow> map_option is_public (load_metadata s' file_path))"

section \<open>Consistency check and cleanup\<close>

text \<open>
  \<open>CleanupConfig\<close> of \<open>metadata_cleanup_manager.py\<close>, and the value that
  \<open>CleanupConfig()\<close> builds.
\<close>

record CleanupConfig =
  enabled :: bool
  grace_period :: int
  batch_size :: int
  scan_interval :: int
  max_orphans_per_run :: int
  backup_before_cleanup :: bool
  exclude_patterns :: "string list"

definition default_config :: CleanupConfig where
  "default_config =
     \<lparr>enabled = True, grace_period = 300, batch_size = 100, scan_interval = 3600,
      max_orphans_per_run = 1000, backup_before_cleanup = True,
      exclude_patterns = [''.tmp'', ''.lock'', ''.temp'', ''~'', ''metadata_backup_'', ''.bak'']\<rparr>"

text \<open>
  The file system below the storage root, as far as the cleanup manager looks at it.
  \<open>path_status\<close> is what the system answers for a printed path: a regular file, a
  directory, nothing, or an \<open>OSError\<close> (a directory that may not be searched, a name that
  is too long). \<open>Path.exists()\<close> and \<open>Path.is_file()\<close> follow symbolic links and are
  read off this answer.

  Several printed paths can lead to one file: \<open>'sub/../a.json'\<close> and \<open>'a.json'\<close>, or a
  symbolic link and its target. \<open>leads_to\<close> gives, for a printed path, the file it leads
  to, each file under one name of its own (as \<open>realpath\<close> would print it); two printed
  paths lead to the same file exactly when these names are equal. A link whose target is
  absent leads to that target and is \<open>Missing\<close>.

  \<open>entries\<close> lists what \<open>rglob("*")\<close> yields, each relative to the storage root and in
  the order of the scan. \<open>backup_files\<close> keeps what \<open>_backup_orphan_metadata\<close> has
  written: the path of each JSON file and its entries, a row of \<open>file_metadata\<close> with its
  tags.
\<close>

datatype stat = RegularFile | Directory | Missing | StatError

record backup_entry =
  backup_row :: file_metadata_row
  backup_tags :: "string list"

record filesystem =
  path_status :: "string \<Rightarrow> stat"
  leads_to :: "string \<Rightarrow> string"
  root_exists :: bool
  entries :: "string list"
  backup_files :: "(string \<times> backup_entry list) list"

text \<open>
  What a \<open>MetadataCleanupManager\<close> works on: its own fields, the database behind
  \<open>db_path\<close> and the file system.
\<close>

record world =
  storage_root :: string
  config :: CleanupConfig
  running :: bool
  db :: store
  disk :: filesystem

text \<open>
  The calls into the database and the file system can raise. Which of them do in one run
  is an input of the model: the \<open>SELECT\<close> of \<open>check_consistency\<close>, \<open>load_metadata\<close> for a
  scanned file, the backup, the two \<open>DELETE\<close> statements for an orphan id, the commit of
  the deletions, and the \<open>INSERT\<close> into \<open>cleanup_log\<close>.
\<close>

datatype delete_fault = NoFault | TagsDeleteFails | RowDeleteFails

record faults =
  select_fails :: bool
  load_fails :: "string \<Rightarrow> bool"
  backup_fails :: bool
  delete_fault_at :: "nat \<Rightarrow> delete_fault"
  commit_fails :: bool
  log_fails :: bool

definition no_faults :: faults where
  "no_faults =
     \<lparr>select_fails = False, load_fails = (\<lambda>p. False), backup_fails = False,
      delete_fault_at = (\<lambda>i. NoFault), commit_fails = False, log_fails = False\<rparr>"

text \<open>
  The clock readings of one run of \<open>cleanup_orphan_metadata\<close>: the printed start and end
  times, their difference in microseconds, and the stamp \<open>%Y%m%d_%H%M%S\<close> in the name of
  the backup file.
\<close>

record clock =
  clock_start :: string
  clock_backup :: string
  clock_end :: string
  clock_duration :: int

text \<open>\<open>_should_exclude_file\<close>: the loop over \<open>config.exclude_patterns\<close>.\<close>

fun matches_any :: "string list \<Rightarrow> string \<Rightarrow> bool" where
  "matches_any [] file_path = False"
| "matches_any (pattern # patterns) file_path =
     (if str_in pattern file_path then True else matches_any patterns file_path)"

definition should_exclude_file :: "world \<Rightarrow> string \<Rightarrow> bool" where
  "should_exclude_file w file_path = matches_any (exclude_patterns (config w)) file_path"

text \<open>
  The result dictionary of \<open>check_consistency\<close> and the dictionaries of its
  \<open>orphan_metadata\<close> list.
\<close>

record orphan =
  orphan_id :: nat
  orphan_file_path :: string
  orphan_full_path :: string

record consistency_result =
  cr_files_checked :: nat
  orphan_metadata :: "orphan list"
  missing_metadata :: "string list"
  cr_errors :: "check_error list"

text \<open>
  The first loop of \<open>check_consistency\<close>, over the rows of \<open>file_metadata\<close>. The row is
  counted before \<open>exists()\<close> is called; an exception of \<open>exists()\<close> is appended to the
  errors and the loop goes on.
\<close>

fun check_rows :: "world \<Rightarrow> file_metadata_row list \<Rightarrow> consistency_result \<Rightarrow> consistency_result" where
  "check_rows w [] result = result"
| "check_rows w (row # rows) result =
     (let full_path = full_path_of (storage_root w) (fm_file_path row);
          result = result\<lparr>cr_files_checked := Suc (cr_files_checked result)\<rparr>
      in check_rows w rows
           (case path_status (disk w) full_path of
              StatError \<Rightarrow>
                result\<lparr>cr_errors := cr_errors result @ [CheckFileError (fm_file_path row) OSError]\<rparr>
            | RegularFile \<Rightarrow> result
            | Directory \<Rightarrow> result
            | Missing \<Rightarrow>
                (if \<not> should_exclude_file w (fm_file_path row)
                 then result\<lparr>orphan_metadata := orphan_metadata result @
                        [\<lparr>orphan_id = fm_id row, orphan_file_path = fm_file_path row,
                          orphan_full_path = full_path\<rparr>]\<rparr>
                 else result)))"

text \<open>
  \<open>_scan_filesystem\<close>: the entries that are regular files and are not left out by name
  or pattern. \<open>is_file()\<close> is asked first; when it raises, the handler around the loop
  ends the scan, so the entries from that one on are not reported.
\<close>

definition scan_filesystem :: "world \<Rightarrow> string list" where
  "scan_filesystem w =
     filter (\<lambda>p. path_status (disk w) (full_path_of (storage_root w) p) = RegularFile
                 \<and> \<not> endswith (basename p) ''.meta'' \<and> basename p \<noteq> ''metadata.db''
                 \<and> \<not> should_exclude_file w p)
            (takeWhile (\<lambda>p. path_status (disk w) (full_path_of (storage_root w) p) \<noteq> StatError)
               (entries (disk w)))"

text \<open>The second loop of \<open>check_consistency\<close>, over the scanned files.\<close>

fun check_files :: "faults \<Rightarrow> world \<Rightarrow> string list \<Rightarrow> consistency_result \<Rightarrow> consistency_result" where
  "check_files f w [] result = result"
| "check_files f w (relative_path # paths) result =
     check_files f w paths
       (if load_fails f relative_path
        then result\<lparr>cr_errors := cr_errors result @
               [CheckMetadataError (full_path_of (storage_root w) relative_path) OperationalError]\<rparr>
        else (case load_metadata (db w) relative_path of
                None \<Rightarrow> result\<lparr>missing_metadata := missing_metadata result @ [relative_path]\<rparr>
              | Some metadata \<Rightarrow> result))"

text \<open>
  The rows that \<open>SELECT id, file_path FROM file_metadata\<close> returns. The statement names
  no order. Both columns are in the index \<open>idx_file_metadata_path\<close> that the schema
  creates on \<open>file_path\<close>, and SQLite answers the statement by a scan of that index: the
  rows come in the order of their paths, compared byte by byte, and not in the order
  of their ids.
\<close>

definition select_id_file_path :: "store \<Rightarrow> file_metadata_row list" where
  "select_id_file_path s = sort_key fm_file_path (file_metadata s)"

text \<open>
  \<open>check_consistency\<close>. Its argument \<open>batch_size\<close> is not used by the source and is left
  out. It reads and never writes.
\<close>

definition check_consistency :: "faults \<Rightarrow> world \<Rightarrow> consistency_result" where
  "check_consistency f w =
     (let result = \<lparr>cr_files_checked = 0, orphan_metadata = [], missing_metadata = [],
                     cr_errors = []\<rparr>
      in if select_fails f
         then result\<lparr>cr_errors := [ConsistencyCheckFailed OperationalError]\<rparr>
         else (let result = check_rows w (select_id_file_path (db w)) result
               in if root_exists (disk w) then check_files f w (scan_filesystem w) result
                  else result))"

text \<open>
  \<open>_backup_orphan_metadata\<close>: the rows of the orphans with their tags go into a JSON file
  under the storage root. It returns the dictionary \<open>backup_file\<close>, \<open>backup_count\<close>.
\<close>

definition backup_entries :: "store \<Rightarrow> orphan list \<Rightarrow> backup_entry list" where
  "backup_entries s orphans =
     concat (map (\<lambda>orphan.
        case find (\<lambda>r. fm_id r = orphan_id orphan) (file_metadata s) of
          None \<Rightarrow> []
        | Some metadata_row \<Rightarrow>
            [\<lparr>backup_row = metadata_row,
              backup_tags = map ft_tag (filter (\<lambda>t. ft_file_id t = orphan_id orphan) (file_tags s))\<rparr>])
        orphans)"

definition backup_name :: "clock \<Rightarrow> string" where
  "backup_name clk = ''metadata_backup_'' @ clock_backup clk @ ''.json''"

text \<open>
  The answer for a printed path once a file has been written at the path \<open>written\<close>: a
  regular file under that path and under every other path that leads to the same file
  and can be looked up; unchanged for the paths that lead elsewhere.
\<close>

definition status_after_write :: "filesystem \<Rightarrow> string \<Rightarrow> string \<Rightarrow> stat" where
  "status_after_write d written p =
     (if p = written \<or> (leads_to d p = leads_to d written \<and> path_status d p \<noteq> StatError)
      then RegularFile else path_status d p)"

definition write_backup :: "string \<Rightarrow> string \<Rightarrow> backup_entry list \<Rightarrow> filesystem \<Rightarrow> filesystem" where
  "write_backup root name backup_data d =
     d\<lparr>path_status := status_after_write d (full_path_of root name),
       entries := (if path_str (parse_path name) \<in> set (entries d) then entries d
                   else entries d @ [path_str (parse_path name)]),
       backup_files := backup_files d @ [(full_path_of root name, backup_data)]\<rparr>"

definition backup_orphan_metadata ::
    "faults \<Rightarrow> clock \<Rightarrow> world \<Rightarrow> orphan list \<Rightarrow> exn + ((string \<times> nat) \<times> world)" where
  "backup_orphan_metadata f clk w orphans =
     (if backup_fails f then Inl OSError
      else (let backup_data = backup_entries (db w) orphans
            in Inr ((full_path_of (storage_root w) (backup_name clk), length backup_data),
                    w\<lparr>disk := write_backup (storage_root w) (backup_name clk) backup_data (disk w)\<rparr>)))"

text \<open>
  \<open>_delete_orphan_metadata\<close>. An exception of one of the two \<open>DELETE\<close> statements is
  caught inside the loop: the orphan is not counted and the loop goes on. The commit
  comes after the loop; when it raises, nothing is deleted.
\<close>

fun delete_rows :: "faults \<Rightarrow> orphan list \<Rightarrow> store \<Rightarrow> nat \<Rightarrow> store \<times> nat" where
  "delete_rows f [] s cleaned_count = (s, cleaned_count)"
| "delete_rows f (orphan # orphans) s cleaned_count =
     (case delete_fault_at f (orphan_id orphan) of
        TagsDeleteFails \<Rightarrow> delete_rows f orphans s cleaned_count
      | RowDeleteFails \<Rightarrow>
          delete_rows f orphans
            (s\<lparr>file_tags := filter (\<lambda>t. ft_file_id t \<noteq> orphan_id orphan) (file_tags s)\<rparr>)
            cleaned_count
      | NoFault \<Rightarrow>
          delete_rows f orphans
            (s\<lparr>file_tags := filter (\<lambda>t. ft_file_id t \<noteq> orphan_id orphan) (file_tags s),
               file_metadata := filter (\<lambda>r. fm_id r \<noteq> orphan_id orphan) (file_metadata s)\<rparr>)
            (Suc cleaned_count))"

definition delete_orphan_metadata :: "faults \<Rightarrow> orphan list \<Rightarrow> store \<Rightarrow> exn + (store \<times> nat)" where
  "delete_orphan_metadata f orphans s =
     (if commit_fails f then Inl OperationalError else Inr (delete_rows f orphans s 0))"

text \<open>\<open>_log_cleanup_result\<close>.\<close>

definition log_cleanup_result :: "faults \<Rightarrow> CleanupResult \<Rightarrow> store \<Rightarrow> exn + store" where
  "log_cleanup_result f result s =
     (if log_fails f then Inl OperationalError
      else Inr (s\<lparr>cleanup_log := cleanup_log s @ [result]\<rparr>))"

text \<open>
  The \<open>try\<close> block of \<open>cleanup_orphan_metadata\<close> with its handler. \<open>caught\<close> is the
  \<open>except Exception\<close> branch; \<open>with_orphan_files\<close> is the last statement of the block.
\<close>

definition caught :: "exn \<Rightarrow> CleanupResult \<Rightarrow> world \<Rightarrow> CleanupResult \<times> world" where
  "caught e result w =
     (result\<lparr>error_count := error_count result + 1,
             details := (details result)\<lparr>details_cleanup_error := Some e\<rparr>\<rparr>, w)"

definition with_orphan_files :: "orphan list \<Rightarrow> CleanupResult \<Rightarrow> world \<Rightarrow> CleanupResult \<times> world" where
  "with_orphan_files orphans_to_clean result w =
     (result\<lparr>details := (details result)\<lparr>details_orphan_files :=
                Some (map orphan_file_path orphans_to_clean)\<rparr>\<rparr>, w)"

definition cleanup_body ::
    "faults \<Rightarrow> clock \<Rightarrow> bool \<Rightarrow> int \<Rightarrow> world \<Rightarrow> CleanupResult \<Rightarrow> CleanupResult \<times> world" where
  "cleanup_body f clk dry_run max_orphans w result =
     (let consistency_result = check_consistency f w;
          result = result\<lparr>files_checked := cr_files_checked consistency_result,
                          orphans_found := length (orphan_metadata consistency_result)\<rparr>;
          result = (if cr_errors consistency_result \<noteq> []
                    then result\<lparr>error_count := length (cr_errors consistency_result),
                                details := (details result)\<lparr>details_errors :=
                                   Some (cr_errors consistency_result)\<rparr>\<rparr>
                    else result);
          orphans_to_clean = slice_to max_orphans (orphan_metadata consistency_result)
      in if \<not> dry_run \<and> orphans_to_clean \<noteq> [] then
           (case (if backup_before_cleanup (config w)
                  then (case backup_orphan_metadata f clk w orphans_to_clean of
                          Inl e \<Rightarrow> Inl e
                        | Inr (backup_info, w1) \<Rightarrow>
                            Inr (result\<lparr>details := (details result)\<lparr>details_backup :=
                                          Some backup_info\<rparr>\<rparr>, w1))
                  else Inr (result, w)) of
              Inl e \<Rightarrow> caught e result w
            | Inr (result, w1) \<Rightarrow>
                (case delete_orphan_metadata f orphans_to_clean (db w1) of
                   Inl e \<Rightarrow> caught e result w1
                 | Inr (s, cleaned_count) \<Rightarrow>
                     with_orphan_files orphans_to_clean
                       (result\<lparr>orphans_cleaned := cleaned_count\<rparr>) (w1\<lparr>db := s\<rparr>)))
         else if orphans_to_clean \<noteq> [] then
           with_orphan_files orphans_to_clean
             (result\<lparr>details := (details result)\<lparr>details_dry_run := Some True,
                        details_would_clean := Some (length orphans_to_clean)\<rparr>\<rparr>) w
         else with_orphan_files orphans_to_clean result w)"

text \<open>
  \<open>cleanup_orphan_metadata\<close>. The world it leaves is returned in every case, next to the
  result or the exception that reaches the caller. \<open>_log_cleanup_result\<close> is called after
  the \<open>try\<close> block, outside of it.
\<close>

definition no_details :: cleanup_details where
  "no_details =
     \<lparr>details_errors = None, details_backup = None, details_dry_run = None,
      details_would_clean = None, details_orphan_files = None, details_cleanup_error = None\<rparr>"

definition cleanup_orphan_metadata ::
    "faults \<Rightarrow> clock \<Rightarrow> bool \<Rightarrow> int option \<Rightarrow> world \<Rightarrow> (exn + CleanupResult) \<times> world" where
  "cleanup_orphan_metadata f clk dry_run max_orphans_arg w =
     (let max_orphans = (case max_orphans_arg of
                           None \<Rightarrow> max_orphans_per_run (config w) | Some n \<Rightarrow> n);
          result = \<lparr>cleanup_type = (if \<not> running w then ''manual'' else ''scheduled''),
                    files_checked = 0, orphans_found = 0, orphans_cleaned = 0, error_count = 0,
                    start_time = clock_start clk, end_time = [], details = no_details,
                    duration = 0\<rparr>
      in case cleanup_body f clk dry_run max_orphans w result of
           (result, w1) \<Rightarrow>
             (let result = result\<lparr>end_time := clock_end clk, duration := clock_duration clk\<rparr>
              in if \<not> dry_run
                 then (case log_cleanup_result f result (db w1) of
                         Inl e \<Rightarrow> (Inl e, w1)
                       | Inr s \<Rightarrow> (Inr result, w1\<lparr>db := s\<rparr>))
                 else (Inr result, w1)))"

text \<open>
  The list \<open>orphans_to_clean\<close> of a run: the orphans of the consistency check, cut to
  \<open>max_orphans\<close> entries.
\<close>

definition orphans_to_clean :: "faults \<Rightarrow> int option \<Rightarrow> world \<Rightarrow> orphan list" where
  "orphans_to_clean f max_orphans_arg w =
     slice_to (case max_orphans_arg of None \<Rightarrow> max_orphans_per_run (config w) | Some n \<Rightarrow> n)
       (orphan_metadata (check_consistency f w))"

text \<open>
  The orphan records of a world: the rows of \<open>file_metadata\<close> whose file is absent and
  whose path matches no exclude pattern, in the order in which the consistency check
  meets them.
\<close>

definition is_orphan :: "world \<Rightarrow> file_metadata_row \<Rightarrow> bool" where
  "is_orphan w row =
     (path_status (disk w) (full_path_of (storage_root w) (fm_file_path row)) = Missing
      \<and> \<not> should_exclude_file w (fm_file_path row))"

definition orphan_rows :: "world \<Rightarrow> file_metadata_row list" where
  "orphan_rows w = filter (is_orphan w) (select_id_file_path (db w))"

definition orphan_of :: "world \<Rightarrow> file_metadata_row \<Rightarrow> orphan" where
  "orphan_of w row =
     \<lparr>orphan_id = fm_id row, orphan_file_path = fm_file_path row,
      orphan_full_path = full_path_of (storage_root w) (fm_file_path row)\<rparr>"

section \<open>Stores and worlds to compute on\<close>

definition empty_store :: store where
  "empty_store = \<lparr>file_metadata = [], file_tags = [], directory_metadata = [], cleanup_log = [],
     seq_file_metadata = 0, seq_file_tags = 0\<rparr>"

definition directory_row :: "nat \<Rightarrow> string \<Rightarrow> int option \<Rightarrow> directory_metadata_row" where
  "directory_row i d v = \<lparr>dm_id = i, dm_directory_path = d, dm_is_public = v, dm_locked = 0,
     dm_description = [], dm_created_by = None, dm_created_at = ''2024-01-01T00:00:00'',
     dm_updated_at = ''2024-01-01T00:00:00''\<rparr>"

definition example_store :: store where
  "example_store = empty_store\<lparr>directory_metadata :=
     [directory_row 1 ''docs'' (Some 0), directory_row 2 ''pub'' (Some 1),
      directory_row 3 ''pub/in/box'' None, directory_row 4 ''/'' (Some 1)]\<rparr>"

definition example_record :: FileMetadata where
  "example_record =
     \<lparr>filename = ''a.txt'', file_size = 12, upload_time = ''2024-01-01T00:00:00'',
      last_modified = ''2025-01-01T00:00:00'', is_public = False,
      content_type = ''text/plain'', created_by = None, tags = [''b'', ''a'', ''c''],
      description = [], file_notes = [], original_url = None, locked = False\<rparr>"

definition saved_store :: store where
  "saved_store =
     \<lparr>file_metadata =
        [\<lparr>fm_id = 1, fm_filename = ''a.txt'', fm_file_path = ''a.txt'', fm_size = 12,
          fm_upload_time = ''2024-01-01T00:00:00'', fm_last_modified = ''2024-06-01T12:00:00'',
          fm_is_public = 0, fm_content_type = ''text/plain'', fm_created_by = None,
          fm_description = [], fm_notes = [], fm_original_url = None, fm_locked = 0,
          fm_created_at = ''2024-06-01T12:00:00'', fm_updated_at = ''2024-06-01T12:00:00''\<rparr>],
      file_tags =
        [\<lparr>ft_id = 1, ft_file_id = 1, ft_tag = ''b'', ft_created_at = ''2024-06-01T12:00:00''\<rparr>,
         \<lparr>ft_id = 2, ft_file_id = 1, ft_tag = ''a'', ft_created_at = ''2024-06-01T12:00:00''\<rparr>,
         \<lparr>ft_id = 3, ft_file_id = 1, ft_tag = ''c'', ft_created_at = ''2024-06-01T12:00:00''\<rparr>],
      directory_metadata = [], cleanup_log = [], seq_file_metadata = 1, seq_file_tags = 3\<rparr>"

text \<open>A world to try the cleanup on: three rows, of which one file is on disk.\<close>

definition file_row :: "nat \<Rightarrow> string \<Rightarrow> file_metadata_row" where
  "file_row i file_path =
     \<lparr>fm_id = i, fm_filename = basename file_path, fm_file_path = file_path, fm_size = 1,
      fm_upload_time = ''2024-01-01T00:00:00'', fm_last_modified = ''2024-01-01T00:00:00'',
      fm_is_public = 0, fm_content_type = ''text/plain'', fm_created_by = None,
      fm_description = [], fm_notes = [], fm_original_url = None, fm_locked = 0,
      fm_created_at = ''2024-01-01T00:00:00'', fm_updated_at = ''2024-01-01T00:00:00''\<rparr>"

definition example_world :: world where
  "example_world =
     \<lparr>storage_root = ''storage/files'', config = default_config, running = False,
      db = empty_store\<lparr>file_metadata :=
             [file_row 1 ''a.txt'', file_row 2 ''foo.tmp'', file_row 3 ''kept.txt''],
             seq_file_metadata := 3\<rparr>,
      disk = \<lparr>path_status = (\<lambda>p. if p = ''storage/files/kept.txt'' \<or> p = ''storage/files/new.txt''
                                   then RegularFile else Missing),
               leads_to = (\<lambda>p. p), root_exists = True, entries = [''kept.txt'', ''new.txt''],
               backup_files = []\<rparr>\<rparr>"

definition example_clock :: clock where
  "example_clock =
     \<lparr>clock_start = ''2024-06-01T12:00:00'', clock_backup = ''20240601_120000'',
      clock_end = ''2024-06-01T12:00:01'', clock_duration = 1000000\<rparr>"

text \<open>A run in which the database cannot be opened: every call into it raises.\<close>

definition database_down :: faults where
  "database_down =
     \<lparr>select_fails = True, load_fails = (\<lambda>p. True), backup_fails = True,
      delete_fault_at = (\<lambda>i. TagsDeleteFails), commit_fails = True, log_fails = True\<rparr>"

text \<open>
  A world with ten rows, for given exclude patterns and a given path of the tenth row.
  No file of a row is on disk. The storage root holds one symbolic link,
  \<open>latest.json\<close>, to a backup file that is not there yet.
\<close>

definition ten_rows_world :: "string list \<Rightarrow> string \<Rightarrow> world" where
  "ten_rows_world patterns last_path =
     \<lparr>storage_root = ''storage/files'',
      config = default_config\<lparr>exclude_patterns := patterns\<rparr>, running = False,
      db = empty_store\<lparr>file_metadata :=
             [file_row 1 ''f1.txt'', file_row 2 ''f2.txt'', file_row 3 ''f3.txt'',
              file_row 4 ''f4.txt'', file_row 5 ''f5.txt'', file_row 6 ''f6.txt'',
              file_row 7 ''f7.txt'', file_row 8 ''f8.txt'', file_row 9 ''f9.txt'',
              file_row 10 last_path],
             seq_file_metadata := 10\<rparr>,
      disk = \<lparr>path_status = (\<lambda>p. Missing),
               leads_to = (\<lambda>p. if p = ''storage/files/latest.json''
                               then ''storage/files/metadata_backup_20240601_120000.json'' else p),
               root_exists = True, entries = [''latest.json''], backup_files = []\<rparr>\<rparr>"

section \<open>Facts about paths and the directory lookup\<close>

lemma walk_depth_pos: "0 < walk_depth d"
  by (simp add: walk_depth_def)

lemma ancestors_within_stable:
  "walk_depth d \<le> n \<Longrightarrow> walk_depth d \<le> m \<Longrightarrow> ancestors_within n d = ancestors_within m d"
proof (induction n arbitrary: d m)
  case 0
  then show ?case using walk_depth_pos [of d] by simp
next
  case (Suc n)
  obtain m' where m: "m = Suc m'" using Suc.prems(2) walk_depth_pos [of d] by (cases m) auto
  show ?case
  proof (cases "parent_dir d = d \<or> parent_dir d = ''.''")
    case True
    then show ?thesis using m by auto
  next
    case False
    then have "walk_depth (parent_dir d) < walk_depth d" using parent_dir_decreases by blast
    then have "ancestors_within n (parent_dir d) = ancestors_within m' (parent_dir d)"
      using Suc.prems m by (intro Suc.IH) auto
    then show ?thesis using False m by simp
  qed
qed

lemma ancestors_step:
  assumes "parent_dir d \<noteq> d" "parent_dir d \<noteq> ''.''"
  shows "ancestors d = parent_dir d # ancestors (parent_dir d)"
proof -
  have lt: "walk_depth (parent_dir d) < walk_depth d" using assms(1) by (rule parent_dir_decreases)
  then obtain k where k: "walk_depth d = Suc k" by (cases "walk_depth d") auto
  have "ancestors_within k (parent_dir d) = ancestors (parent_dir d)"
    unfolding ancestors_def using lt k by (intro ancestors_within_stable) auto
  then show ?thesis using assms k by (simp add: ancestors_def)
qed

lemma ancestors_stop: "parent_dir d = d \<or> parent_dir d = ''.'' \<Longrightarrow> ancestors d = []"
  using walk_depth_pos [of d] by (cases "walk_depth d") (auto simp: ancestors_def)

lemma path_str_nonempty: "valid_root r \<Longrightarrow> \<forall>x\<in>set cs. valid_comp x \<Longrightarrow> path_str (r, cs) \<noteq> []"
  using join_sep_hd [of cs] by (cases "cs = []") (auto simp: path_str_def valid_root_def)

lemma parent_dir_nonempty: "parent_dir d \<noteq> []"
proof -
  obtain r cs where p: "parse_path (parent_dir d) = (r, cs)" by (cases "parse_path (parent_dir d)")
  have "path_str (r, cs) \<noteq> []" using parse_path_valid [OF p] by (rule path_str_nonempty)
  then show ?thesis using path_str_parent_dir [of d] p by simp
qed

lemma get_directory_permission_walk:
  "d \<noteq> [] \<Longrightarrow> d \<noteq> ''.'' \<Longrightarrow> get_directory_permission s d = first_setting s (d # ancestors d)"
proof (induction s d rule: get_directory_permission.induct)
  case (1 s d)
  show ?case
  proof (cases "directory_setting s d")
    case (Some b)
    then show ?thesis using "1.prems" by simp
  next
    case None
    show ?thesis
    proof (cases "parent_dir d = d \<or> parent_dir d = ''.''")
      case True
      then show ?thesis using None "1.prems" ancestors_stop [OF True] by auto
    next
      case False
      then have "get_directory_permission s (parent_dir d) = first_setting s (parent_dir d # ancestors (parent_dir d))"
        using "1.IH" "1.prems" None parent_dir_nonempty [of d] by auto
      then show ?thesis using False None "1.prems" ancestors_step [of d] by simp
    qed
  qed
qed

lemma lookup_within_enough:
  "walk_depth d \<le> n \<Longrightarrow> lookup_within n s d = Some (get_directory_permission s d)"
proof (induction n arbitrary: d)
  case 0
  then show ?case using walk_depth_pos [of d] by simp
next
  case (Suc n)
  show ?case
  proof (cases "parent_dir d \<noteq> d")
    case True
    then have "walk_depth (parent_dir d) \<le> n" using parent_dir_decreases [of d] Suc.prems by simp
    then have "lookup_within n s (parent_dir d) = Some (get_directory_permission s (parent_dir d))"
      by (rule Suc.IH)
    then show ?thesis by (simp split: option.splits)
  next
    case False
    then show ?thesis by (simp split: option.splits)
  qed
qed


lemma first_setting_nth:
  "i < length ds \<Longrightarrow> directory_setting s (ds ! i) = Some b \<Longrightarrow>
   \<forall>j<i. directory_setting s (ds ! j) = None \<Longrightarrow> first_setting s ds = Some b"
proof (induction ds arbitrary: i)
  case Nil
  then show ?case by simp
next
  case (Cons d ds)
  show ?case
  proof (cases i)
    case 0
    then show ?thesis using Cons.prems by simp
  next
    case (Suc k)
    have "directory_setting s d = None" using Cons.prems(3) Suc by auto
    moreover have "first_setting s ds = Some b"
    proof (rule Cons.IH [of k])
      show "k < length ds" using Cons.prems(1) Suc by simp
      show "directory_setting s (ds ! k) = Some b" using Cons.prems(2) Suc by simp
      show "\<forall>j<k. directory_setting s (ds ! j) = None"
      proof (intro allI impI)
        fix j assume "j < k"
        then have "Suc j < i" using Suc by simp
        then have "directory_setting s ((d # ds) ! Suc j) = None" using Cons.prems(3) by blast
        then show "directory_setting s (ds ! j) = None" by simp
      qed
    qed
    ultimately show ?thesis by simp
  qed
qed

lemma first_setting_nearest:
  "first_setting s ds = Some b \<longleftrightarrow>
     (\<exists>i<length ds. directory_setting s (ds ! i) = Some b
        \<and> (\<forall>j<i. directory_setting s (ds ! j) = None))"
proof
  assume "first_setting s ds = Some b"
  then show "\<exists>i<length ds. directory_setting s (ds ! i) = Some b
        \<and> (\<forall>j<i. directory_setting s (ds ! j) = None)"
  proof (induction ds)
    case Nil
    then show ?case by simp
  next
    case (Cons d ds)
    show ?case
    proof (cases "directory_setting s d")
      case None
      then obtain i where i: "i < length ds" "directory_setting s (ds ! i) = Some b"
          "\<forall>j<i. directory_setting s (ds ! j) = None"
        using Cons by auto
      have "\<forall>j<Suc i. directory_setting s ((d # ds) ! j) = None"
        using None i(3) by (auto simp: less_Suc_eq_0_disj)
      then show ?thesis using i(1,2) by (intro exI [of _ "Suc i"]) simp
    next
      case (Some c)
      then show ?thesis using Cons.prems by (intro exI [of _ 0]) simp
    qed
  qed
next
  assume "\<exists>i<length ds. directory_setting s (ds ! i) = Some b
        \<and> (\<forall>j<i. directory_setting s (ds ! j) = None)"
  then show "first_setting s ds = Some b" using first_setting_nth by blast
qed


lemma get_directory_permission_chain:
  "get_directory_permission s (dirname p) = first_setting s (lookup_chain p)"
  using get_directory_permission_walk [of "dirname p" s] by (simp add: lookup_chain_def)

lemma join_sep_snoc:
  "cs \<noteq> [] \<Longrightarrow> join_sep (cs @ [x]) = join_sep cs @ sep # x"
  by (induction cs rule: join_sep.induct) auto

lemma path_str_plain: "cs \<noteq> [] \<Longrightarrow> path_str ([], cs) = join_sep cs"
  by (simp add: path_str_def)

lemma parse_plain:
  assumes "cs \<noteq> []" and "\<forall>x\<in>set cs. valid_comp x"
  shows "parse_path (join_sep cs) = ([], cs)"
  using parse_path_str [of "[]" cs] assms by (simp add: path_str_plain valid_root_def)

lemma parent_dir_plain:
  assumes "cs \<noteq> []" and "\<forall>x\<in>set (cs @ [x]). valid_comp x"
  shows "parent_dir (join_sep (cs @ [x])) = join_sep cs"
proof -
  have "parse_path (join_sep (cs @ [x])) = ([], cs @ [x])"
    using assms(2) by (intro parse_plain) auto
  then show ?thesis using assms(1) by (simp add: parent_dir_def path_parent_def path_str_plain)
qed

lemma parent_dir_single:
  assumes "valid_comp x"
  shows "parent_dir x = ''.''"
proof -
  have "parse_path (join_sep [x]) = ([], [x])" using assms by (intro parse_plain) auto
  then show ?thesis by (simp add: parent_dir_def path_parent_def path_str_def)
qed

lemma join_sep_not_dot:
  assumes "cs \<noteq> []" and "\<forall>x\<in>set cs. valid_comp x"
  shows "join_sep cs \<noteq> ''.''"
proof
  assume "join_sep cs = ''.''"
  then have "parse_path (join_sep cs) = parse_path ''.''" by simp
  moreover have "parse_path ''.'' = ([], [])" by code_simp
  ultimately show False using parse_plain [OF assms] assms(1) by simp
qed

lemma ancestors_plain:
  assumes "cs \<noteq> []" and "\<forall>x\<in>set cs. valid_comp x"
  shows "ancestors (join_sep cs) = map (\<lambda>k. join_sep (take k cs)) (rev [1..<length cs])"
  using assms
proof (induction cs rule: rev_induct)
  case Nil
  then show ?case by simp
next
  case (snoc x cs)
  show ?case
  proof (cases "cs = []")
    case True
    have "valid_comp x" using snoc.prems by simp
    then have "parent_dir (join_sep ([] @ [x])) = ''.''" using parent_dir_single by simp
    then show ?thesis using True ancestors_stop by simp
  next
    case False
    have v: "\<forall>y\<in>set cs. valid_comp y" using snoc.prems by simp
    have p: "parent_dir (join_sep (cs @ [x])) = join_sep cs"
      using parent_dir_plain [OF False] snoc.prems(2) by blast
    have ne: "join_sep cs \<noteq> join_sep (cs @ [x])"
    proof
      assume "join_sep cs = join_sep (cs @ [x])"
      then have "parse_path (join_sep cs) = parse_path (join_sep (cs @ [x]))" by simp
      then show False using parse_plain [OF False v] parse_plain [of "cs @ [x]"] snoc.prems(2)
        by simp
    qed
    have nd: "join_sep cs \<noteq> ''.''" using join_sep_not_dot [OF False v] .
    have step: "ancestors (join_sep (cs @ [x])) = join_sep cs # ancestors (join_sep cs)"
      using ancestors_step [of "join_sep (cs @ [x])"] p ne nd by simp
    have ih: "ancestors (join_sep cs) = map (\<lambda>k. join_sep (take k cs)) (rev [1..<length cs])"
      using snoc.IH [OF False v] .
    have m: "map (\<lambda>k. join_sep (take k (cs @ [x]))) (rev [1..<length cs])
             = map (\<lambda>k. join_sep (take k cs)) (rev [1..<length cs])"
      by (intro map_cong) auto
    have l: "1 \<le> length cs" using False by (cases cs) auto
    have "rev [1..<length (cs @ [x])] = length cs # rev [1..<length cs]"
      using l by simp
    then show ?thesis using step ih m by simp
  qed
qed

lemma join_sep_last:
  "cs \<noteq> [] \<Longrightarrow> \<forall>x\<in>set cs. x \<noteq> [] \<Longrightarrow>
   join_sep cs \<noteq> [] \<and> last (join_sep cs) = last (last cs)"
  by (induction cs rule: join_sep.induct) auto

lemma dirname_plain:
  assumes "cs \<noteq> []" and "\<forall>x\<in>set cs. valid_comp x" and "sep \<notin> set name"
  shows "dirname (join_sep cs @ sep # name) = join_sep cs"
proof -
  let ?d = "join_sep cs"
  have nonempty: "\<forall>x\<in>set cs. x \<noteq> []" using assms(2) by (auto simp: valid_comp_def)
  have ne: "?d \<noteq> []" and la: "last ?d = last (last cs)"
    using join_sep_last [OF assms(1) nonempty] by blast+
  have "last cs \<in> set cs" using assms(1) by simp
  then have vl: "valid_comp (last cs)" using assms(2) by blast
  then have "last (last cs) \<in> set (last cs)" and "sep \<notin> set (last cs)"
    by (simp_all add: valid_comp_def)
  then have "last (last cs) \<noteq> sep" by metis
  then have ls: "last ?d \<noteq> sep" using la by simp
  have rs: "rstrip_sep (?d @ [sep]) = ?d"
    using ne ls by (cases ?d rule: rev_cases) (auto simp: rstrip_sep_def)
  have h: "rev (dropWhile (\<lambda>c. c \<noteq> sep) (rev (?d @ sep # name))) = ?d @ [sep]"
    using assms(3) by (auto simp: dropWhile_append3)
  have "hd ?d \<noteq> sep" using join_sep_hd [OF assms(1,2)] by simp
  then have "filter (\<lambda>c. c \<noteq> sep) (?d @ [sep]) \<noteq> []"
    using ne by (cases ?d) auto
  then show ?thesis unfolding dirname_def h Let_def using rs by simp
qed

lemma lookup_chain_plain:
  assumes "cs \<noteq> []" and "\<forall>x\<in>set cs. valid_comp x" and "sep \<notin> set name"
  shows "lookup_chain (join_sep cs @ sep # name)
           = map (\<lambda>k. join_sep (take k cs)) (rev [1..<Suc (length cs)])"
proof -
  have d: "dirname (join_sep cs @ sep # name) = join_sep cs" using dirname_plain [OF assms] .
  have ne: "join_sep cs \<noteq> []" using join_sep_hd [OF assms(1,2)] by simp
  have nd: "join_sep cs \<noteq> ''.''" using join_sep_not_dot [OF assms(1,2)] .
  have l: "1 \<le> length cs" using assms(1) by (cases cs) auto
  have "rev [1..<Suc (length cs)] = length cs # rev [1..<length cs]" using l by simp
  then show ?thesis
    unfolding lookup_chain_def d using ne nd ancestors_plain [OF assms(1,2)] by simp
qed

lemma split_sep_nonempty: "split_sep s \<noteq> []"
  by (induction s) (auto split: list.splits)

lemma join_split: "join_sep (split_sep s) = s"
proof (induction s)
  case Nil
  then show ?case by simp
next
  case (Cons c cs)
  obtain w ws where ws: "split_sep cs = w # ws"
    using split_sep_nonempty [of cs] by (cases "split_sep cs") auto
  show ?case
  proof (cases "c = sep")
    case True
    then show ?thesis using Cons.IH ws by simp
  next
    case False
    then show ?thesis using Cons.IH ws by (cases ws) auto
  qed
qed

lemma dirname_no_sep: "sep \<notin> set p \<Longrightarrow> dirname p = []"
proof -
  assume "sep \<notin> set p"
  then have "dropWhile (\<lambda>c. c \<noteq> sep) (rev p) = []" by auto
  then show ?thesis by (simp add: dirname_def)
qed

text \<open>
  On a path written in plain components the lookup compares exactly the directories
  that contain the file.
\<close>

lemma lookup_chain_plain_path:
  assumes "plain_path p"
  shows "lookup_chain p = directory_chain p"
proof -
  let ?cs = "split_sep p"
  let ?ds = "butlast ?cs"
  have ne: "?cs \<noteq> []" by (rule split_sep_nonempty)
  have pl: "\<forall>c\<in>set ?cs. c \<noteq> [] \<and> c \<noteq> ''.''"
    using assms by (simp add: plain_path_def)
  have v: "\<forall>c\<in>set ?cs. valid_comp c"
    using pl split_sep_no_sep [of _ p] by (auto simp: valid_comp_def)
  have pc: "path_components p = ?cs"
    using pl by (simp add: path_components_def)
  have cs: "?cs = ?ds @ [last ?cs]" using ne by simp
  have ls: "sep \<notin> set (last ?cs)" using v ne by (simp add: valid_comp_def)
  show ?thesis
  proof (cases "?ds = []")
    case True
    then have "?cs = [last ?cs]" using cs by simp
    then have "join_sep ?cs = last ?cs" by (metis join_sep.simps(2))
    then have "p = last ?cs" by (simp add: join_split)
    then have "sep \<notin> set p" using ls by simp
    then have "dirname p = []" by (rule dirname_no_sep)
    then have "lookup_chain p = []" by (simp add: lookup_chain_def)
    moreover have "directory_chain p = []" using True by (simp add: directory_chain_def pc Let_def)
    ultimately show ?thesis by simp
  next
    case False
    have vd: "\<forall>x\<in>set ?ds. valid_comp x" using v by (meson in_set_butlastD)
    have "join_sep ?cs = join_sep (?ds @ [last ?cs])" using cs by simp
    then have "p = join_sep ?ds @ sep # last ?cs"
      using join_sep_snoc [OF False] by (simp add: join_split)
    then have "lookup_chain p = lookup_chain (join_sep ?ds @ sep # last ?cs)" by simp
    also have "\<dots> = map (\<lambda>k. join_sep (take k ?ds)) (rev [1..<Suc (length ?ds)])"
      using lookup_chain_plain [OF False vd ls] .
    also have "\<dots> = directory_chain p" unfolding directory_chain_def pc Let_def ..
    finally show ?thesis .
  qed
qed

section \<open>Facts about saving and loading\<close>

lemma insert_tags_Inr:
  assumes "insert_tags fid now ts s = Inr s'"
  shows "file_metadata s' = file_metadata s"
    and "directory_metadata s' = directory_metadata s"
    and "cleanup_log s' = cleanup_log s"
    and "seq_file_metadata s' = seq_file_metadata s"
    and "map ft_tag (filter (\<lambda>t. ft_file_id t = fid) (file_tags s'))
         = map ft_tag (filter (\<lambda>t. ft_file_id t = fid) (file_tags s)) @ ts"
    and "\<forall>t\<in>set (file_tags s'). ft_file_id t = fid \<or> t \<in> set (file_tags s)"
  using assms
  by (induction fid now ts s rule: insert_tags.induct; simp split: if_splits; fastforce)+

lemma insert_tags_succeeds:
  "distinct ts \<Longrightarrow> \<forall>t\<in>set (file_tags s). ft_file_id t = fid \<longrightarrow> ft_tag t \<notin> set ts \<Longrightarrow>
   \<exists>s'. insert_tags fid now ts s = Inr s'"
  by (induction fid now ts s rule: insert_tags.induct) (auto simp: filter_empty_conv)

lemma insert_tags_present:
  "t \<in> set ts \<Longrightarrow> \<exists>r\<in>set (file_tags s). ft_file_id r = fid \<and> ft_tag r = t \<Longrightarrow>
   insert_tags fid now ts s = Inl IntegrityError"
  by (induction fid now ts s rule: insert_tags.induct) (auto simp: filter_empty_conv)

lemma insert_tags_distinct:
  "insert_tags fid now ts s = Inr s' \<Longrightarrow> distinct ts"
proof (induction fid now ts s rule: insert_tags.induct)
  case (1 fid now s)
  then show ?case by simp
next
  case (2 fid now t ts s)
  let ?s1 = "s\<lparr>file_tags := file_tags s @
                    [\<lparr>ft_id = Suc (seq_file_tags s), ft_file_id = fid, ft_tag = t,
                      ft_created_at = now\<rparr>],
                 seq_file_tags := Suc (seq_file_tags s)\<rparr>"
  from "2.prems" have ok: "filter (\<lambda>r. ft_file_id r = fid \<and> ft_tag r = t) (file_tags s) = []"
    and rest: "insert_tags fid now ts ?s1 = Inr s'"
    by (auto split: if_splits)
  have d: "distinct ts" using "2.IH" ok rest by simp
  have "t \<notin> set ts"
  proof
    assume "t \<in> set ts"
    then have "insert_tags fid now ts ?s1 = Inl IntegrityError"
      by (rule insert_tags_present) simp
    then show False using rest by simp
  qed
  then show ?case using d by simp
qed

lemma find_map_same_key:
  assumes "\<And>r. key (f r) = key r"
  shows "find (\<lambda>r. key r = k) (map f xs) = map_option f (find (\<lambda>r. key r = k) xs)"
  using assms by (induction xs) auto

lemma find_append_new:
  "find P xs = None \<Longrightarrow> find P (xs @ [x]) = (if P x then Some x else None)"
  by (induction xs) (auto split: if_splits)

lemma find_None_filter: "find P xs = None \<longleftrightarrow> filter P xs = []"
  by (induction xs) auto

lemma bool_of_int_of_bool: "bool_of_int (int_of_bool b) = b"
  by (simp add: bool_of_int_def int_of_bool_def)

lemma load_of_row:
  assumes "find (\<lambda>r. fm_file_path r = p) (file_metadata s) = Some row"
    and "fm_id row \<noteq> 0"
    and "map ft_tag (filter (\<lambda>t. ft_file_id t = fm_id row) (file_tags s)) = ts"
  shows "load_metadata s p =
     Some \<lparr>filename = fm_filename row, file_size = fm_size row,
           upload_time = fm_upload_time row, last_modified = fm_last_modified row,
           is_public = bool_of_int (fm_is_public row),
           content_type = fm_content_type row, created_by = fm_created_by row,
           tags = sort ts, description = fm_description row, file_notes = fm_notes row,
           original_url = fm_original_url row,
           locked = bool_of_int (fm_locked row)\<rparr>"
  using assms by (simp add: load_metadata_def get_file_id_def)

lemma save_metadata_insert:
  assumes "get_file_id s p = None \<or> get_file_id s p = Some 0"
  shows "save_metadata now p md s =
     (if \<not> int64_ok (file_size md) then Inl OverflowError
      else if filter (\<lambda>r. fm_file_path r = p) (file_metadata s) \<noteq> [] then Inl IntegrityError
      else case insert_tags (Suc (seq_file_metadata s)) now (tags md)
                  (s\<lparr>file_metadata := file_metadata s @
                        [new_row (Suc (seq_file_metadata s)) now p (md\<lparr>last_modified := now\<rparr>)],
                     seq_file_metadata := Suc (seq_file_metadata s)\<rparr>) of
             Inl e \<Rightarrow> Inl e
           | Inr s2 \<Rightarrow> Inr (md\<lparr>last_modified := now\<rparr>, s2))"
  using assms by (auto simp: save_metadata_def Let_def)

lemma save_metadata_update:
  assumes "get_file_id s p = Some fid" and "fid \<noteq> 0"
  shows "save_metadata now p md s =
     (if \<not> int64_ok (file_size md) then Inl OverflowError
      else case insert_tags fid now (tags md)
                  (s\<lparr>file_metadata :=
                        map (\<lambda>r. if fm_id r = fid then update_row now (md\<lparr>last_modified := now\<rparr>) r else r)
                            (file_metadata s),
                     file_tags := filter (\<lambda>t. ft_file_id t \<noteq> fid) (file_tags s)\<rparr>) of
             Inl e \<Rightarrow> Inl e
           | Inr s3 \<Rightarrow> Inr (md\<lparr>last_modified := now\<rparr>, s3))"
  using assms by (simp add: save_metadata_def Let_def)

lemma find_SomeD: "find P xs = Some x \<Longrightarrow> x \<in> set xs \<and> P x"
  by (induction xs) (auto split: if_splits)

lemma load_after_save_any:
  assumes sv: "save_metadata now p md s = Inr (m, s')"
  shows "m = md\<lparr>last_modified := now\<rparr>
     \<and> distinct (tags md)
     \<and> (\<exists>ts. load_metadata s' p = Some (md\<lparr>last_modified := now, tags := sort (ts @ tags md)\<rparr>)
           \<and> (store_ok s \<longrightarrow> ts = []))"
proof (cases "find (\<lambda>r. fm_file_path r = p) (file_metadata s)")
  case None
  let ?md = "md\<lparr>last_modified := now\<rparr>"
  let ?fid = "Suc (seq_file_metadata s)"
  let ?s1 = "s\<lparr>file_metadata := file_metadata s @ [new_row ?fid now p ?md],
                seq_file_metadata := ?fid\<rparr>"
  let ?ts = "map ft_tag (filter (\<lambda>t. ft_file_id t = ?fid) (file_tags s))"
  have g: "get_file_id s p = None \<or> get_file_id s p = Some 0"
    using None by (simp add: get_file_id_def)
  have ins: "insert_tags ?fid now (tags md) ?s1 = Inr s'" and m: "m = ?md"
    using sv unfolding save_metadata_insert [OF g] by (auto split: if_splits sum.splits)
  note facts = insert_tags_Inr [OF ins]
  have f: "find (\<lambda>r. fm_file_path r = p) (file_metadata s') = Some (new_row ?fid now p ?md)"
    using facts(1) None by (simp add: find_append_new new_row_def)
  have t: "map ft_tag (filter (\<lambda>t. ft_file_id t = fm_id (new_row ?fid now p ?md)) (file_tags s'))
           = ?ts @ tags md"
    using facts(5) by (simp add: new_row_def)
  have l: "load_metadata s' p = Some (md\<lparr>last_modified := now, tags := sort (?ts @ tags md)\<rparr>)"
    using load_of_row [OF f _ t] by (simp add: new_row_def bool_of_int_of_bool)
  have e: "store_ok s \<longrightarrow> ?ts = []"
    by (auto simp: store_ok_def filter_empty_conv)
  show ?thesis using m insert_tags_distinct [OF ins] l e by blast
next
  case (Some r0)
  let ?md = "md\<lparr>last_modified := now\<rparr>"
  let ?fid = "fm_id r0"
  let ?s2 = "s\<lparr>file_metadata :=
                 map (\<lambda>r. if fm_id r = ?fid then update_row now ?md r else r) (file_metadata s),
               file_tags := filter (\<lambda>t. ft_file_id t \<noteq> ?fid) (file_tags s)\<rparr>"
  have g: "get_file_id s p = Some ?fid" using Some by (simp add: get_file_id_def)
  have ne: "filter (\<lambda>r. fm_file_path r = p) (file_metadata s) \<noteq> []"
    using Some find_None_filter [of "\<lambda>r. fm_file_path r = p" "file_metadata s"] by simp
  have pos: "?fid \<noteq> 0"
  proof
    assume z: "?fid = 0"
    then have "get_file_id s p = None \<or> get_file_id s p = Some 0" using g by simp
    from save_metadata_insert [OF this, of now md] show False
      using sv ne by (simp split: if_splits)
  qed
  have ins: "insert_tags ?fid now (tags md) ?s2 = Inr s'" and m: "m = ?md"
    using sv unfolding save_metadata_update [OF g pos] by (auto split: if_splits sum.splits)
  note facts = insert_tags_Inr [OF ins]
  have "find (\<lambda>r. fm_file_path r = p)
          (map (\<lambda>r. if fm_id r = ?fid then update_row now ?md r else r) (file_metadata s))
        = map_option (\<lambda>r. if fm_id r = ?fid then update_row now ?md r else r)
            (find (\<lambda>r. fm_file_path r = p) (file_metadata s))"
    by (rule find_map_same_key) (simp add: update_row_def)
  then have f: "find (\<lambda>r. fm_file_path r = p) (file_metadata s') = Some (update_row now ?md r0)"
    using facts(1) Some by simp
  have t: "map ft_tag (filter (\<lambda>t. ft_file_id t = fm_id (update_row now ?md r0)) (file_tags s'))
           = [] @ tags md"
    using facts(5) by (simp add: update_row_def)
  have l: "load_metadata s' p = Some (md\<lparr>last_modified := now, tags := sort ([] @ tags md)\<rparr>)"
    using load_of_row [OF f _ t] pos by (simp add: update_row_def bool_of_int_of_bool)
  show ?thesis using m insert_tags_distinct [OF ins] l by blast
qed

lemma load_after_save:
  assumes sv: "save_metadata now p md s = Inr (m, s')" and ok: "store_ok s"
  shows "m = md\<lparr>last_modified := now\<rparr>"
    and "load_metadata s' p = Some (md\<lparr>last_modified := now, tags := sort (tags md)\<rparr>)"
    and "distinct (tags md)"
  using load_after_save_any [OF sv] ok by auto

lemma store_ok_empty: "store_ok empty_store"
  by (simp add: store_ok_def empty_store_def)

lemma save_metadata_succeeds:
  assumes ok: "store_ok s" and d: "distinct (tags r)" and sz: "int64_ok (file_size r)"
  shows "\<exists>m s'. save_metadata now p r s = Inr (m, s')"
proof (cases "find (\<lambda>x. fm_file_path x = p) (file_metadata s)")
  case None
  have g: "get_file_id s p = None \<or> get_file_id s p = Some 0"
    using None by (simp add: get_file_id_def)
  have e: "filter (\<lambda>x. fm_file_path x = p) (file_metadata s) = []"
    using None by (simp add: find_None_filter)
  have "\<exists>s'. insert_tags (Suc (seq_file_metadata s)) now (tags r)
            (s\<lparr>file_metadata := file_metadata s @
                  [new_row (Suc (seq_file_metadata s)) now p (r\<lparr>last_modified := now\<rparr>)],
               seq_file_metadata := Suc (seq_file_metadata s)\<rparr>) = Inr s'"
    using ok by (intro insert_tags_succeeds [OF d]) (auto simp: store_ok_def)
  then show ?thesis unfolding save_metadata_insert [OF g] using sz e by auto
next
  case (Some r0)
  have g: "get_file_id s p = Some (fm_id r0)" using Some by (simp add: get_file_id_def)
  have pos: "fm_id r0 \<noteq> 0" using find_SomeD [OF Some] ok by (auto simp: store_ok_def)
  have "\<exists>s'. insert_tags (fm_id r0) now (tags r)
            (s\<lparr>file_metadata :=
                  map (\<lambda>x. if fm_id x = fm_id r0 then update_row now (r\<lparr>last_modified := now\<rparr>) x else x)
                      (file_metadata s),
               file_tags := filter (\<lambda>t. ft_file_id t \<noteq> fm_id r0) (file_tags s)\<rparr>) = Inr s'"
    by (intro insert_tags_succeeds [OF d]) auto
  then show ?thesis unfolding save_metadata_update [OF g pos] using sz by auto
qed

lemma insert_tags_store_ok:
  "insert_tags fid now ts s = Inr s' \<Longrightarrow> fid \<le> seq_file_metadata s \<Longrightarrow> store_ok s \<Longrightarrow> store_ok s'"
  using insert_tags_Inr [of fid now ts s s'] by (auto simp: store_ok_def)

lemma save_metadata_store_ok:
  assumes sv: "save_metadata now p r s = Inr (m, s')" and ok: "store_ok s"
  shows "store_ok s'"
proof (cases "find (\<lambda>x. fm_file_path x = p) (file_metadata s)")
  case None
  have g: "get_file_id s p = None \<or> get_file_id s p = Some 0"
    using None by (simp add: get_file_id_def)
  let ?s1 = "s\<lparr>file_metadata := file_metadata s @
                  [new_row (Suc (seq_file_metadata s)) now p (r\<lparr>last_modified := now\<rparr>)],
               seq_file_metadata := Suc (seq_file_metadata s)\<rparr>"
  have ins: "insert_tags (Suc (seq_file_metadata s)) now (tags r) ?s1 = Inr s'"
    using sv unfolding save_metadata_insert [OF g] by (auto split: if_splits sum.splits)
  have "store_ok ?s1" using ok by (auto simp: store_ok_def new_row_def le_Suc_eq)
  then show ?thesis using insert_tags_store_ok [OF ins] by simp
next
  case (Some r0)
  have g: "get_file_id s p = Some (fm_id r0)" using Some by (simp add: get_file_id_def)
  have mem: "r0 \<in> set (file_metadata s)" using find_SomeD [OF Some] by simp
  then have pos: "fm_id r0 \<noteq> 0" and le: "fm_id r0 \<le> seq_file_metadata s"
    using ok by (auto simp: store_ok_def)
  let ?s2 = "s\<lparr>file_metadata :=
                  map (\<lambda>x. if fm_id x = fm_id r0 then update_row now (r\<lparr>last_modified := now\<rparr>) x else x)
                      (file_metadata s),
               file_tags := filter (\<lambda>t. ft_file_id t \<noteq> fm_id r0) (file_tags s)\<rparr>"
  have ins: "insert_tags (fm_id r0) now (tags r) ?s2 = Inr s'"
    using sv unfolding save_metadata_update [OF g pos] by (auto split: if_splits sum.splits)
  have "store_ok ?s2" using ok by (auto simp: store_ok_def update_row_def)
  then show ?thesis using insert_tags_store_ok [OF ins] le by simp
qed

lemma save_metadata_duplicate_tags:
  assumes "\<not> distinct (tags r)"
  shows "\<exists>e. save_metadata now p r s = Inl e"
proof (cases "save_metadata now p r s")
  case (Inl e)
  then show ?thesis by blast
next
  case (Inr x)
  obtain m s' where "x = (m, s')" by (cases x)
  then have "save_metadata now p r s = Inr (m, s')" using Inr by simp
  then have "distinct (tags r)" using load_after_save_any by blast
  then show ?thesis using assms by simp
qed

lemma create_metadata_succeeds:
  assumes "store_ok s" and "distinct (case tg of None \<Rightarrow> [] | Some ts \<Rightarrow> ts)"
    and "int64_ok sz"
  shows "\<exists>m s'. create_metadata now save_now p sz d ct cb tg de nt lk s = Inr (m, s')"
  unfolding create_metadata_def Let_def
  using assms by (intro save_metadata_succeeds) simp_all

section \<open>Facts about the consistency check and the cleanup\<close>

lemma str_in_iff: "str_in pattern s \<longleftrightarrow> (\<exists>u v. s = u @ pattern @ v)"
proof (induction s)
  case Nil
  then show ?case by auto
next
  case (Cons c cs)
  have pre: "take (length pattern) (c # cs) = pattern \<longleftrightarrow> (\<exists>v. c # cs = pattern @ v)"
    by (metis append_eq_conv_conj append_take_drop_id)
  show ?case
  proof
    assume "str_in pattern (c # cs)"
    then consider "take (length pattern) (c # cs) = pattern" | "str_in pattern cs" by auto
    then show "\<exists>u v. c # cs = u @ pattern @ v"
    proof cases
      case 1
      then obtain v where "c # cs = pattern @ v" using pre by blast
      then have "c # cs = [] @ pattern @ v" by simp
      then show ?thesis by blast
    next
      case 2
      then obtain u v where "cs = u @ pattern @ v" using Cons.IH by blast
      then have "c # cs = (c # u) @ pattern @ v" by simp
      then show ?thesis by blast
    qed
  next
    assume "\<exists>u v. c # cs = u @ pattern @ v"
    then obtain u v where uv: "c # cs = u @ pattern @ v" by blast
    show "str_in pattern (c # cs)"
    proof (cases u)
      case Nil
      then have "take (length pattern) (c # cs) = pattern" using uv pre by auto
      then show ?thesis by simp
    next
      case (Cons a u')
      then have "cs = u' @ pattern @ v" using uv by simp
      then show ?thesis using Cons.IH by auto
    qed
  qed
qed

lemma matches_any_iff: "matches_any patterns p \<longleftrightarrow> (\<exists>pattern\<in>set patterns. str_in pattern p)"
  by (induction patterns) auto

lemma check_rows_orphans:
  "orphan_metadata (check_rows w rows result)
     = orphan_metadata result @ map (orphan_of w) (filter (is_orphan w) rows)"
  by (induction rows arbitrary: result)
     (auto simp: Let_def is_orphan_def orphan_of_def split: stat.splits)

lemma check_rows_counts:
  "cr_files_checked (check_rows w rows result) = cr_files_checked result + length rows"
  by (induction rows arbitrary: result) (auto simp: Let_def split: stat.splits)

lemma check_files_orphans:
  "orphan_metadata (check_files f w paths result) = orphan_metadata result"
  by (induction paths arbitrary: result) (auto split: option.splits)

lemma check_files_counts:
  "cr_files_checked (check_files f w paths result) = cr_files_checked result"
  by (induction paths arbitrary: result) (auto split: option.splits)

lemma check_consistency_orphans:
  "orphan_metadata (check_consistency f w)
     = (if select_fails f then [] else map (orphan_of w) (orphan_rows w))"
  by (simp add: check_consistency_def Let_def check_rows_orphans check_files_orphans orphan_rows_def)

lemma orphan_rows_filter:
  "orphan_rows w = sort_key fm_file_path (filter (is_orphan w) (file_metadata (db w)))"
  by (simp add: orphan_rows_def select_id_file_path_def filter_sort)

lemma set_orphan_rows: "set (orphan_rows w) = {r \<in> set (file_metadata (db w)). is_orphan w r}"
  by (simp add: orphan_rows_def select_id_file_path_def)

lemma cleanup_body_errors:
  assumes "cleanup_body f clk dry_run n w r0 = (r, w1)"
    and "details_cleanup_error (details r0) = None" and "error_count r0 = 0"
  shows "error_count r = length (cr_errors (check_consistency f w))
           + (case details_cleanup_error (details r) of None \<Rightarrow> 0 | Some e \<Rightarrow> 1)"
  using assms
  by (auto simp: cleanup_body_def Let_def caught_def with_orphan_files_def
           split: if_splits sum.splits prod.splits)

lemma cleanup_body_details_errors:
  assumes "cleanup_body f clk dry_run n w r0 = (r, w1)"
    and "details_errors (details r0) = None"
  shows "details_errors (details r)
           = (if cr_errors (check_consistency f w) = [] then None
              else Some (cr_errors (check_consistency f w)))"
  using assms
  by (auto simp: cleanup_body_def Let_def caught_def with_orphan_files_def
           split: if_splits sum.splits prod.splits)

lemma delete_rows_cleaned:
  "snd (delete_rows f os s n)
     = n + length (filter (\<lambda>orphan. delete_fault_at f (orphan_id orphan) = NoFault) os)"
  by (induction os arbitrary: s n) (auto split: delete_fault.splits)

lemma cleanup_body_dry:
  assumes "cleanup_body f clk True n w r0 = (r, w1)"
    and "details_cleanup_error (details r0) = None" and "orphans_cleaned r0 = 0"
  shows "details_cleanup_error (details r) = None \<and> orphans_cleaned r = 0"
  using assms
  by (auto simp: cleanup_body_def Let_def with_orphan_files_def split: if_splits)

lemma cleanup_body_caught:
  assumes "cleanup_body f clk False n w r0 = (r, w1)"
    and "details_cleanup_error (details r0) = None" and "orphans_cleaned r0 = 0"
    and "todo = slice_to n (orphan_metadata (check_consistency f w))"
  shows "if todo = [] then details_cleanup_error (details r) = None \<and> orphans_cleaned r = 0
         else if backup_before_cleanup (config w) \<and> backup_fails f
           then details_cleanup_error (details r) = Some OSError \<and> orphans_cleaned r = 0
         else if commit_fails f
           then details_cleanup_error (details r) = Some OperationalError \<and> orphans_cleaned r = 0
         else details_cleanup_error (details r) = None
            \<and> orphans_cleaned r
                = length (filter (\<lambda>orphan. delete_fault_at f (orphan_id orphan) = NoFault) todo)"
  using assms
  by (auto simp: cleanup_body_def Let_def caught_def with_orphan_files_def
           backup_orphan_metadata_def delete_orphan_metadata_def delete_rows_cleaned split_beta
           split: if_splits)

lemma not_raised: "\<not> (\<exists>e. x = Inl e) \<Longrightarrow> \<exists>r. x = Inr r"
  by (cases x) auto

lemma cleanup_dry_run:
  "\<exists>result. cleanup_orphan_metadata f clk True max_orphans w = (Inr result, w)"
proof -
  have "snd (cleanup_body f clk True n w result) = w" for n result
    by (simp add: cleanup_body_def Let_def with_orphan_files_def)
  then show ?thesis
    by (simp add: cleanup_orphan_metadata_def Let_def split: prod.splits) (metis snd_conv)
qed

lemma not_in_image: "\<forall>x\<in>S. g x \<noteq> p \<Longrightarrow> p \<notin> g ` S"
  by auto

lemma not_in_imageD: "p \<notin> g ` S \<Longrightarrow> \<forall>x\<in>S. g x \<noteq> p"
  by auto

lemma slice_to_all: "int (length xs) \<le> n \<Longrightarrow> slice_to n xs = xs"
  by (simp add: slice_to_def)

lemma slice_to_nat: "slice_to (int k) xs = take k xs"
  by (simp add: slice_to_def)

lemma delete_rows_count: "snd (delete_rows no_faults os s n) = n + length os"
  by (induction os arbitrary: s n) (simp_all add: no_faults_def)

lemma delete_rows_files:
  "file_metadata (fst (delete_rows no_faults os s n))
     = filter (\<lambda>r. fm_id r \<notin> orphan_id ` set os) (file_metadata s)"
  by (induction os arbitrary: s n) (simp_all add: no_faults_def conj_commute)

lemma delete_rows_tags:
  "file_tags (fst (delete_rows no_faults os s n))
     = filter (\<lambda>t. ft_file_id t \<notin> orphan_id ` set os) (file_tags s)"
  by (induction os arbitrary: s n) (simp_all add: no_faults_def conj_commute)

lemma cleanup_no_faults:
  assumes os: "os = slice_to (case mo of None \<Rightarrow> max_orphans_per_run (config w) | Some n \<Rightarrow> n)
                    (map (orphan_of w) (orphan_rows w))"
  shows "\<exists>res w1. cleanup_orphan_metadata no_faults clk False mo w = (Inr res, w1)
      \<and> orphans_cleaned res = length os
      \<and> storage_root w1 = storage_root w \<and> config w1 = config w
      \<and> file_metadata (db w1) = filter (\<lambda>r. fm_id r \<notin> orphan_id ` set os) (file_metadata (db w))
      \<and> path_status (disk w1) =
          (if backup_before_cleanup (config w) \<and> os \<noteq> []
           then status_after_write (disk w) (full_path_of (storage_root w) (backup_name clk))
           else path_status (disk w))"
proof -
  have nf: "select_fails no_faults = False" "backup_fails no_faults = False"
    "commit_fails no_faults = False" "log_fails no_faults = False"
    by (simp_all add: no_faults_def)
  have co: "orphan_metadata (check_consistency no_faults w) = map (orphan_of w) (orphan_rows w)"
    by (simp add: check_consistency_orphans nf)
  show ?thesis
  proof (cases "os = []")
    case True
    then show ?thesis
      using os
      by (simp add: cleanup_orphan_metadata_def cleanup_body_def co Let_def with_orphan_files_def
            log_cleanup_result_def nf split: prod.splits)
  next
    case False
    then show ?thesis
      using os
      by (simp add: cleanup_orphan_metadata_def cleanup_body_def co Let_def with_orphan_files_def
            log_cleanup_result_def backup_orphan_metadata_def delete_orphan_metadata_def
            write_backup_def nf delete_rows_count delete_rows_files split_beta
            split: prod.splits)
  qed
qed

lemma should_exclude_file_config:
  "config w1 = config w \<Longrightarrow> should_exclude_file w1 p = should_exclude_file w p"
  by (simp add: should_exclude_file_def)

lemma status_after_write_Missing:
  "status_after_write d b p = Missing \<Longrightarrow> path_status d p = Missing"
  by (simp add: status_after_write_def split: if_splits)

lemma status_after_write_elsewhere:
  "leads_to d p \<noteq> leads_to d b \<Longrightarrow> status_after_write d b p = path_status d p"
  by (auto simp: status_after_write_def)

lemma is_orphan_after:
  assumes root: "storage_root w1 = storage_root w" and cfg: "config w1 = config w"
    and st: "path_status (disk w1) = path_status (disk w)
         \<or> path_status (disk w1) = status_after_write (disk w) b"
    and o: "is_orphan w1 r"
  shows "is_orphan w r"
proof -
  let ?p = "full_path_of (storage_root w) (fm_file_path r)"
  have m1: "path_status (disk w1) ?p = Missing" and e1: "\<not> should_exclude_file w1 (fm_file_path r)"
    using o unfolding is_orphan_def root by blast+
  have "path_status (disk w) ?p = Missing"
  proof (rule disjE [OF st])
    assume h: "path_status (disk w1) = path_status (disk w)"
    show ?thesis using m1 unfolding h .
  next
    assume h: "path_status (disk w1) = status_after_write (disk w) b"
    have "status_after_write (disk w) b ?p = Missing" using m1 unfolding h .
    then show ?thesis by (rule status_after_write_Missing)
  qed
  moreover have "\<not> should_exclude_file w (fm_file_path r)"
    using e1 unfolding should_exclude_file_config [OF cfg] .
  ultimately show ?thesis unfolding is_orphan_def by blast
qed

lemma is_orphan_kept:
  assumes root: "storage_root w1 = storage_root w" and cfg: "config w1 = config w"
    and st: "path_status (disk w1) = path_status (disk w)
         \<or> (path_status (disk w1) = status_after_write (disk w) b
             \<and> leads_to (disk w) (full_path_of (storage_root w) (fm_file_path r))
                 \<noteq> leads_to (disk w) b)"
    and o: "is_orphan w r"
  shows "is_orphan w1 r"
proof -
  let ?p = "full_path_of (storage_root w) (fm_file_path r)"
  have m: "path_status (disk w) ?p = Missing" and e: "\<not> should_exclude_file w (fm_file_path r)"
    using o unfolding is_orphan_def by blast+
  have "path_status (disk w1) ?p = Missing"
  proof (rule disjE [OF st])
    assume h: "path_status (disk w1) = path_status (disk w)"
    show ?thesis unfolding h using m .
  next
    assume h: "path_status (disk w1) = status_after_write (disk w) b
             \<and> leads_to (disk w) ?p \<noteq> leads_to (disk w) b"
    then have h1: "path_status (disk w1) = status_after_write (disk w) b"
      and ne: "leads_to (disk w) ?p \<noteq> leads_to (disk w) b"
      by blast+
    show ?thesis unfolding h1 status_after_write_elsewhere [OF ne] using m .
  qed
  moreover have "\<not> should_exclude_file w1 (fm_file_path r)"
    using e unfolding should_exclude_file_config [OF cfg] .
  ultimately show ?thesis unfolding is_orphan_def root by blast
qed

lemma slice_to_Nil: "slice_to n [] = []"
  by (simp add: slice_to_def)

lemma filter_not_in_take: "distinct xs \<Longrightarrow> filter (\<lambda>x. x \<notin> set (take n xs)) xs = drop n xs"
proof (induction xs arbitrary: n)
  case Nil
  then show ?case by simp
next
  case (Cons x xs)
  show ?case
  proof (cases n)
    case 0
    then show ?thesis by simp
  next
    case (Suc m)
    have "filter (\<lambda>y. y \<notin> set (take n (x # xs))) (x # xs)
          = filter (\<lambda>y. y \<noteq> x \<and> y \<notin> set (take m xs)) xs"
      using Suc by simp
    also have "\<dots> = filter (\<lambda>y. y \<notin> set (take m xs)) xs"
      using Cons.prems by (intro filter_cong) auto
    also have "\<dots> = drop m xs" using Cons.IH Cons.prems by simp
    finally show ?thesis using Suc by simp
  qed
qed

section \<open>The claims\<close>

text \<open>
  Claim C1. After a \<open>save_metadata\<close> that returns, \<open>load_metadata\<close> of the same path finds
  a record whose set of tags is the set of tags passed in, and whose \<open>last_modified\<close> is
  the clock reading that \<open>save_metadata\<close> took: the value passed in is discarded. The
  loaded value is therefore at least the value passed in exactly when that value is not
  later than the clock reading. The store is one whose file ids were handed out by the
  \<open>AUTOINCREMENT\<close> counter (\<open>store_ok\<close>).
\<close>

theorem save_then_load:
  assumes "save_metadata now p r s = Inr (m, s')" and "store_ok s"
  shows "\<exists>r'. load_metadata s' p = Some r' \<and> set (tags r') = set (tags r)
            \<and> last_modified r' = now"
  using load_after_save(2) [OF assms] by simp

theorem save_then_load_witness:
  "store_ok empty_store
   \<and> save_metadata ''2024-06-01T12:00:00'' ''a.txt'' example_record empty_store
       = Inr (example_record\<lparr>last_modified := ''2024-06-01T12:00:00''\<rparr>, saved_store)
   \<and> (\<exists>r'. load_metadata saved_store ''a.txt'' = Some r'
          \<and> set (tags r') = set (tags example_record)
          \<and> last_modified r' = ''2024-06-01T12:00:00'')"
proof -
  have s: "save_metadata ''2024-06-01T12:00:00'' ''a.txt'' example_record empty_store
       = Inr (example_record\<lparr>last_modified := ''2024-06-01T12:00:00''\<rparr>, saved_store)"
    by code_simp
  show ?thesis using save_then_load [OF s store_ok_empty] s store_ok_empty by blast
qed

text \<open>
  Claim C1 with a \<open>last_modified\<close> that never goes down fails on a record stamped later
  than the clock reading at the save (a record from another machine, or one written
  before the local clock was set back): it is loaded with an earlier \<open>last_modified\<close>
  than the one passed in.
\<close>

theorem save_then_load_counterexample:
  "save_metadata ''2024-06-01T12:00:00'' ''a.txt'' example_record empty_store
       = Inr (example_record\<lparr>last_modified := ''2024-06-01T12:00:00''\<rparr>, saved_store)
   \<and> map_option last_modified (load_metadata saved_store ''a.txt'') = Some ''2024-06-01T12:00:00''
   \<and> last_modified example_record = ''2025-01-01T00:00:00''
   \<and> \<not> (''2025-01-01T00:00:00'' \<le> ''2024-06-01T12:00:00'')"
  by code_simp

text \<open>
  Claim C2. A dry run always returns a result and leaves the world as it was. A run that
  is not a dry run hands an exception to its caller exactly when the final
  \<open>_log_cleanup_result\<close> raises: that call stands after the \<open>try\<close> block. Every other
  exception is caught, and a result that is returned shows it as follows. The messages
  of the consistency check are counted in \<open>errors\<close> and stand in \<open>details.errors\<close>. An
  exception of the backup or of the commit of the deletions is counted once more and
  stands in \<open>details.cleanup_error\<close>; nothing is reported as cleaned then. A \<open>DELETE\<close>
  that fails for a single orphan is caught inside the loop: it is neither counted nor
  recorded, and only the orphans whose two \<open>DELETE\<close> statements went through are
  reported as cleaned.
\<close>

theorem cleanup_raises_only_from_log:
  "(\<exists>result. cleanup_orphan_metadata f clk True max_orphans w = (Inr result, w))
   \<and> ((\<exists>e. fst (cleanup_orphan_metadata f clk False max_orphans w) = Inl e) \<longleftrightarrow> log_fails f)
   \<and> (\<forall>result. fst (cleanup_orphan_metadata f clk dry_run max_orphans w) = Inr result \<longrightarrow>
          error_count result = length (cr_errors (check_consistency f w))
            + (case details_cleanup_error (details result) of None \<Rightarrow> 0 | Some e \<Rightarrow> 1)
        \<and> details_errors (details result)
            = (if cr_errors (check_consistency f w) = [] then None
               else Some (cr_errors (check_consistency f w))))
   \<and> (\<forall>result. fst (cleanup_orphan_metadata f clk True max_orphans w) = Inr result \<longrightarrow>
          details_cleanup_error (details result) = None \<and> orphans_cleaned result = 0)
   \<and> (\<forall>result. fst (cleanup_orphan_metadata f clk False max_orphans w) = Inr result \<longrightarrow>
          (if orphans_to_clean f max_orphans w = []
             then details_cleanup_error (details result) = None \<and> orphans_cleaned result = 0
           else if backup_before_cleanup (config w) \<and> backup_fails f
             then details_cleanup_error (details result) = Some OSError
                \<and> orphans_cleaned result = 0
           else if commit_fails f
             then details_cleanup_error (details result) = Some OperationalError
                \<and> orphans_cleaned result = 0
           else details_cleanup_error (details result) = None
              \<and> orphans_cleaned result
                  = length (filter (\<lambda>orphan. delete_fault_at f (orphan_id orphan) = NoFault)
                              (orphans_to_clean f max_orphans w))))"
proof -
  define n where "n = (case max_orphans of None \<Rightarrow> max_orphans_per_run (config w) | Some k \<Rightarrow> k)"
  define r0 where "r0 =
     \<lparr>cleanup_type = (if \<not> running w then ''manual'' else ''scheduled''),
      files_checked = 0, orphans_found = 0, orphans_cleaned = 0, error_count = 0,
      start_time = clock_start clk, end_time = [], details = no_details, duration = 0\<rparr>"
  have r0: "details_cleanup_error (details r0) = None" "error_count r0 = 0"
    and r0': "orphans_cleaned r0 = 0" "details_errors (details r0) = None"
    by (simp_all add: r0_def no_details_def)
  have todo: "orphans_to_clean f max_orphans w
                = slice_to n (orphan_metadata (check_consistency f w))"
    by (simp add: orphans_to_clean_def n_def)
  have unf: "cleanup_orphan_metadata f clk d max_orphans w =
      (case cleanup_body f clk d n w r0 of
         (result, w1) \<Rightarrow>
           (let result = result\<lparr>end_time := clock_end clk, duration := clock_duration clk\<rparr>
            in if \<not> d
               then (case log_cleanup_result f result (db w1) of
                       Inl e \<Rightarrow> (Inl e, w1)
                     | Inr s \<Rightarrow> (Inr result, w1\<lparr>db := s\<rparr>))
               else (Inr result, w1)))" for d
    by (simp add: cleanup_orphan_metadata_def n_def r0_def Let_def)
  have body: "\<exists>r w1. cleanup_body f clk d n w r0 = (r, w1)
                \<and> result = r\<lparr>end_time := clock_end clk, duration := clock_duration clk\<rparr>"
    if h: "fst (cleanup_orphan_metadata f clk d max_orphans w) = Inr result" for d result
  proof -
    obtain r w1 where b: "cleanup_body f clk d n w r0 = (r, w1)"
      by (cases "cleanup_body f clk d n w r0")
    have "result = r\<lparr>end_time := clock_end clk, duration := clock_duration clk\<rparr>"
      using h unfolding unf b
      by (auto simp: Let_def split: if_splits sum.splits)
    then show ?thesis using b by blast
  qed
  have one: "\<exists>result. cleanup_orphan_metadata f clk True max_orphans w = (Inr result, w)"
    by (rule cleanup_dry_run)
  have two: "(\<exists>e. fst (cleanup_orphan_metadata f clk False max_orphans w) = Inl e) \<longleftrightarrow> log_fails f"
  proof -
    obtain r w1 where b: "cleanup_body f clk False n w r0 = (r, w1)"
      by (cases "cleanup_body f clk False n w r0")
    have "fst (cleanup_orphan_metadata f clk False max_orphans w) =
        (if log_fails f then Inl OperationalError
         else Inr (r\<lparr>end_time := clock_end clk, duration := clock_duration clk\<rparr>))"
      unfolding unf b by (simp add: Let_def log_cleanup_result_def)
    then show ?thesis by simp
  qed
  have three: "error_count result = length (cr_errors (check_consistency f w))
            + (case details_cleanup_error (details result) of None \<Rightarrow> 0 | Some e \<Rightarrow> 1)
        \<and> details_errors (details result)
            = (if cr_errors (check_consistency f w) = [] then None
               else Some (cr_errors (check_consistency f w)))"
    if h: "fst (cleanup_orphan_metadata f clk dry_run max_orphans w) = Inr result" for result
  proof -
    from body [OF h] obtain r w1 where b: "cleanup_body f clk dry_run n w r0 = (r, w1)"
      and res: "result = r\<lparr>end_time := clock_end clk, duration := clock_duration clk\<rparr>"
      by blast
    show ?thesis
      using cleanup_body_errors [OF b r0] cleanup_body_details_errors [OF b r0'(2)] res by simp
  qed
  have four: "details_cleanup_error (details result) = None \<and> orphans_cleaned result = 0"
    if h: "fst (cleanup_orphan_metadata f clk True max_orphans w) = Inr result" for result
  proof -
    from body [OF h] obtain r w1 where b: "cleanup_body f clk True n w r0 = (r, w1)"
      and res: "result = r\<lparr>end_time := clock_end clk, duration := clock_duration clk\<rparr>"
      by blast
    show ?thesis using cleanup_body_dry [OF b r0(1) r0'(1)] res by simp
  qed
  have five: "if orphans_to_clean f max_orphans w = []
             then details_cleanup_error (details result) = None \<and> orphans_cleaned result = 0
           else if backup_before_cleanup (config w) \<and> backup_fails f
             then details_cleanup_error (details result) = Some OSError
                \<and> orphans_cleaned result = 0
           else if commit_fails f
             then details_cleanup_error (details result) = Some OperationalError
                \<and> orphans_cleaned result = 0
           else details_cleanup_error (details result) = None
              \<and> orphans_cleaned result
                  = length (filter (\<lambda>orphan. delete_fault_at f (orphan_id orphan) = NoFault)
                              (orphans_to_clean f max_orphans w))"
    if h: "fst (cleanup_orphan_metadata f clk False max_orphans w) = Inr result" for result
  proof -
    from body [OF h] obtain r w1 where b: "cleanup_body f clk False n w r0 = (r, w1)"
      and res: "result = r\<lparr>end_time := clock_end clk, duration := clock_duration clk\<rparr>"
      by blast
    have f1: "details_cleanup_error (details result) = details_cleanup_error (details r)"
      and f2: "orphans_cleaned result = orphans_cleaned r"
      using res by simp_all
    show ?thesis unfolding f1 f2 by (rule cleanup_body_caught [OF b r0(1) r0'(1) todo])
  qed
  show ?thesis using one two three four five by blast
qed

text \<open>
  Four runs on \<open>example_world\<close>, which has one orphan: with the database down the dry
  run returns and the other run raises; a failing backup and a failing commit are each
  counted and recorded; a failing \<open>DELETE\<close> leaves no trace but the count of cleaned
  records.
\<close>

theorem cleanup_raises_only_from_log_witness:
  "(\<exists>result. cleanup_orphan_metadata database_down example_clock True None example_world
       = (Inr result, example_world))
   \<and> log_fails database_down
   \<and> (\<exists>e. fst (cleanup_orphan_metadata database_down example_clock False None example_world) = Inl e)
   \<and> (\<exists>result. fst (cleanup_orphan_metadata (no_faults\<lparr>backup_fails := True\<rparr>) example_clock
                       False None example_world) = Inr result
         \<and> details_cleanup_error (details result) = Some OSError
         \<and> error_count result = 1 \<and> orphans_cleaned result = 0)
   \<and> (\<exists>result. fst (cleanup_orphan_metadata (no_faults\<lparr>commit_fails := True\<rparr>) example_clock
                       False None example_world) = Inr result
         \<and> details_cleanup_error (details result) = Some OperationalError
         \<and> error_count result = 1 \<and> orphans_cleaned result = 0)
   \<and> (\<exists>result. fst (cleanup_orphan_metadata (no_faults\<lparr>delete_fault_at := (\<lambda>i. RowDeleteFails)\<rparr>)
                       example_clock False None example_world) = Inr result
         \<and> details_cleanup_error (details result) = None
         \<and> error_count result = 0 \<and> orphans_cleaned result = 0)"
proof -
  have a: "log_fails database_down" by code_simp
  note t = cleanup_raises_only_from_log [of database_down example_clock None example_world False]
  have d: "\<exists>result. cleanup_orphan_metadata database_down example_clock True None example_world
       = (Inr result, example_world)" using t by (elim conjE)
  have "(\<exists>e. fst (cleanup_orphan_metadata database_down example_clock False None example_world) = Inl e)
        \<longleftrightarrow> log_fails database_down" using t by (elim conjE)
  then have e: "\<exists>e. fst (cleanup_orphan_metadata database_down example_clock False None example_world) = Inl e"
    using a by (rule iffD2)
  have run: "\<exists>result. fst (cleanup_orphan_metadata g example_clock False None example_world) = Inr result
         \<and> details_cleanup_error (details result) = x
         \<and> error_count result = (case x of None \<Rightarrow> 0 | Some e \<Rightarrow> 1) \<and> orphans_cleaned result = k"
    if nl: "\<not> log_fails g"
      and ck: "cr_errors (check_consistency g example_world) = []"
      and out: "\<And>result :: CleanupResult.
          (if orphans_to_clean g None example_world = []
             then details_cleanup_error (details result) = None \<and> orphans_cleaned result = 0
           else if backup_before_cleanup (config example_world) \<and> backup_fails g
             then details_cleanup_error (details result) = Some OSError
                \<and> orphans_cleaned result = 0
           else if commit_fails g
             then details_cleanup_error (details result) = Some OperationalError
                \<and> orphans_cleaned result = 0
           else details_cleanup_error (details result) = None
              \<and> orphans_cleaned result
                  = length (filter (\<lambda>orphan. delete_fault_at g (orphan_id orphan) = NoFault)
                              (orphans_to_clean g None example_world)))
          \<Longrightarrow> details_cleanup_error (details result) = x \<and> orphans_cleaned result = k"
    for g x k
  proof -
    note u = cleanup_raises_only_from_log [of g example_clock None example_world False]
    have "(\<exists>e. fst (cleanup_orphan_metadata g example_clock False None example_world) = Inl e)
            \<longleftrightarrow> log_fails g" using u by (elim conjE)
    then have "\<not> (\<exists>e. fst (cleanup_orphan_metadata g example_clock False None example_world) = Inl e)"
      using nl by (simp only: not_False_eq_True)
    then obtain result where
      r: "fst (cleanup_orphan_metadata g example_clock False None example_world) = Inr result"
      using not_raised by blast
    have c3: "\<forall>result. fst (cleanup_orphan_metadata g example_clock False None example_world) = Inr result \<longrightarrow>
          error_count result = length (cr_errors (check_consistency g example_world))
            + (case details_cleanup_error (details result) of None \<Rightarrow> 0 | Some e \<Rightarrow> 1)
        \<and> details_errors (details result)
            = (if cr_errors (check_consistency g example_world) = [] then None
               else Some (cr_errors (check_consistency g example_world)))"
      using u by (elim conjE)
    have c5: "\<forall>result. fst (cleanup_orphan_metadata g example_clock False None example_world) = Inr result \<longrightarrow>
          (if orphans_to_clean g None example_world = []
             then details_cleanup_error (details result) = None \<and> orphans_cleaned result = 0
           else if backup_before_cleanup (config example_world) \<and> backup_fails g
             then details_cleanup_error (details result) = Some OSError
                \<and> orphans_cleaned result = 0
           else if commit_fails g
             then details_cleanup_error (details result) = Some OperationalError
                \<and> orphans_cleaned result = 0
           else details_cleanup_error (details result) = None
              \<and> orphans_cleaned result
                  = length (filter (\<lambda>orphan. delete_fault_at g (orphan_id orphan) = NoFault)
                              (orphans_to_clean g None example_world)))"
      using u by (elim conjE)
    have "fst (cleanup_orphan_metadata g example_clock False None example_world) = Inr result \<longrightarrow>
          (if orphans_to_clean g None example_world = []
             then details_cleanup_error (details result) = None \<and> orphans_cleaned result = 0
           else if backup_before_cleanup (config example_world) \<and> backup_fails g
             then details_cleanup_error (details result) = Some OSError
                \<and> orphans_cleaned result = 0
           else if commit_fails g
             then details_cleanup_error (details result) = Some OperationalError
                \<and> orphans_cleaned result = 0
           else details_cleanup_error (details result) = None
              \<and> orphans_cleaned result
                  = length (filter (\<lambda>orphan. delete_fault_at g (orphan_id orphan) = NoFault)
                              (orphans_to_clean g None example_world)))"
      using c5 by (rule spec)
    from mp [OF this r]
    have o: "details_cleanup_error (details result) = x \<and> orphans_cleaned result = k"
      by (rule out)
    have "error_count result = length (cr_errors (check_consistency g example_world))
            + (case details_cleanup_error (details result) of None \<Rightarrow> 0 | Some e \<Rightarrow> 1)"
      using c3 r by blast
    then have "error_count result = (case x of None \<Rightarrow> 0 | Some e \<Rightarrow> 1)"
      using o unfolding ck by simp
    then show ?thesis using r o by blast
  qed
  let ?fb = "no_faults\<lparr>backup_fails := True\<rparr>"
  let ?fc = "no_faults\<lparr>commit_fails := True\<rparr>"
  let ?fd = "no_faults\<lparr>delete_fault_at := (\<lambda>i. RowDeleteFails)\<rparr>"
  have b1: "\<not> log_fails ?fb" and b2: "cr_errors (check_consistency ?fb example_world) = []"
    and b3: "orphans_to_clean ?fb None example_world \<noteq> []"
    and b4: "backup_before_cleanup (config example_world) \<and> backup_fails ?fb"
    by code_simp+
  have c1: "\<not> log_fails ?fc" and c2: "cr_errors (check_consistency ?fc example_world) = []"
    and c3: "orphans_to_clean ?fc None example_world \<noteq> []"
    and c4: "\<not> (backup_before_cleanup (config example_world) \<and> backup_fails ?fc)"
    and c5: "commit_fails ?fc"
    by code_simp+
  have d1: "\<not> log_fails ?fd" and d2: "cr_errors (check_consistency ?fd example_world) = []"
    and d3: "orphans_to_clean ?fd None example_world \<noteq> []"
    and d4: "\<not> (backup_before_cleanup (config example_world) \<and> backup_fails ?fd)"
    and d5: "\<not> commit_fails ?fd"
    and d6: "length (filter (\<lambda>orphan. delete_fault_at ?fd (orphan_id orphan) = NoFault)
                              (orphans_to_clean ?fd None example_world)) = 0"
    by code_simp+
  have rb: "\<exists>result. fst (cleanup_orphan_metadata ?fb example_clock False None example_world) = Inr result
         \<and> details_cleanup_error (details result) = Some OSError
         \<and> error_count result = 1 \<and> orphans_cleaned result = 0"
    using run [of ?fb "Some OSError" 0, OF b1 b2] unfolding if_not_P [OF b3] if_P [OF b4]
    by simp
  have rc: "\<exists>result. fst (cleanup_orphan_metadata ?fc example_clock False None example_world) = Inr result
         \<and> details_cleanup_error (details result) = Some OperationalError
         \<and> error_count result = 1 \<and> orphans_cleaned result = 0"
    using run [of ?fc "Some OperationalError" 0, OF c1 c2]
    unfolding if_not_P [OF c3] if_not_P [OF c4] if_P [OF c5]
    by simp
  have rd: "\<exists>result. fst (cleanup_orphan_metadata ?fd example_clock False None example_world) = Inr result
         \<and> details_cleanup_error (details result) = None
         \<and> error_count result = 0 \<and> orphans_cleaned result = 0"
    using run [of ?fd None 0, OF d1 d2]
    unfolding if_not_P [OF d3] if_not_P [OF d4] if_not_P [OF d5] d6
    by simp
  show ?thesis by (intro conjI a d e rb rc rd)
qed

text \<open>
  Claim C2 as it stands fails twice. When the database cannot be opened, the
  consistency check records its failure, and the insert into \<open>cleanup_log\<close> then raises
  to the caller; the same happens when only that insert fails. And when the \<open>DELETE\<close>
  for the one orphan of \<open>example_world\<close> fails, the run returns a result that counts no
  error and holds no message: one orphan found, none cleaned.
\<close>

theorem cleanup_raises_counterexample:
  "fst (cleanup_orphan_metadata database_down example_clock False None example_world)
     = Inl OperationalError
   \<and> fst (cleanup_orphan_metadata (no_faults\<lparr>log_fails := True\<rparr>) example_clock False None
            example_world) = Inl OperationalError
   \<and> map_sum id orphans_found
        (fst (cleanup_orphan_metadata (no_faults\<lparr>delete_fault_at := (\<lambda>i. RowDeleteFails)\<rparr>)
               example_clock False None example_world)) = Inr 1
   \<and> map_sum id orphans_cleaned
        (fst (cleanup_orphan_metadata (no_faults\<lparr>delete_fault_at := (\<lambda>i. RowDeleteFails)\<rparr>)
               example_clock False None example_world)) = Inr 0
   \<and> map_sum id error_count
        (fst (cleanup_orphan_metadata (no_faults\<lparr>delete_fault_at := (\<lambda>i. RowDeleteFails)\<rparr>)
               example_clock False None example_world)) = Inr 0
   \<and> map_sum id details
        (fst (cleanup_orphan_metadata (no_faults\<lparr>delete_fault_at := (\<lambda>i. RowDeleteFails)\<rparr>)
               example_clock False None example_world))
       = Inr \<lparr>details_errors = None,
              details_backup = Some (''storage/files/metadata_backup_20240601_120000.json'', 1),
              details_dry_run = None, details_would_clean = None,
              details_orphan_files = Some [''a.txt''], details_cleanup_error = None\<rparr>"
  by code_simp

text \<open>
  Claim C3. For a file path written in plain components, when \<open>create_metadata\<close>
  returns, the record it returns and the record then stored under the path carry the
  setting of the nearest directory of the parent directory chain that has one, and the
  caller's \<open>is_public\<close> when no directory of the chain has a setting. The chain of
  \<open>c1/.../cn/name\<close> is \<open>c1/.../cn\<close>, ..., \<open>c1\<close>, and \<open>first_setting\<close> picks the
  nearest directory with a setting (lemma \<open>first_setting_nearest\<close>).
\<close>

theorem create_metadata_inherits:
  assumes "plain_path p"
    and "create_metadata now save_now p sz d ct cb tg de nt lk s = Inr (m, s')"
  shows "is_public m = (case first_setting s (directory_chain p) of Some b \<Rightarrow> b | None \<Rightarrow> d)
       \<and> map_option is_public (load_metadata s' p)
           = Some (case first_setting s (directory_chain p) of Some b \<Rightarrow> b | None \<Rightarrow> d)"
proof -
  let ?v = "case first_setting s (directory_chain p) of Some b \<Rightarrow> b | None \<Rightarrow> d"
  define md where "md =
      \<lparr>filename = basename p, file_size = sz, upload_time = now, last_modified = now,
       is_public = ?v,
       content_type = (case ct of None \<Rightarrow> ''application/octet-stream''
                       | Some c \<Rightarrow> if c = [] then ''application/octet-stream'' else c),
       created_by = cb, tags = (case tg of None \<Rightarrow> [] | Some ts \<Rightarrow> ts),
       description = de, file_notes = nt, original_url = None, locked = lk\<rparr>"
  have ch: "get_directory_permission s (dirname p) = first_setting s (directory_chain p)"
    unfolding get_directory_permission_chain lookup_chain_plain_path [OF assms(1)] ..
  have sv: "save_metadata save_now p md s = Inr (m, s')"
    using assms(2) unfolding create_metadata_def Let_def ch md_def .
  have pub: "is_public md = ?v" by (simp add: md_def)
  from load_after_save_any [OF sv] obtain ts where
    m: "m = md\<lparr>last_modified := save_now\<rparr>" and
    l: "load_metadata s' p = Some (md\<lparr>last_modified := save_now, tags := sort (ts @ tags md)\<rparr>)"
    by blast
  show ?thesis using m l pub by simp
qed

text \<open>
  In \<open>example_store\<close> the directory \<open>docs\<close> is private and \<open>docs/sub\<close> has no record:
  a file created as public under \<open>docs/sub\<close> is stored as private. The directory \<open>new\<close>
  has no record either, and a file created under it keeps what the caller asked for.
\<close>

theorem create_metadata_inherits_witness:
  "plain_path ''docs/sub/f.txt''
   \<and> directory_chain ''docs/sub/f.txt'' = [''docs/sub'', ''docs'']
   \<and> first_setting example_store (directory_chain ''docs/sub/f.txt'') = Some False
   \<and> (\<exists>m s'. create_metadata ''2024-01-01T00:00:00'' ''2024-01-01T00:00:01'' ''docs/sub/f.txt'' 10
          True None None None [] [] False example_store = Inr (m, s')
        \<and> is_public m = False
        \<and> map_option is_public (load_metadata s' ''docs/sub/f.txt'') = Some False)
   \<and> plain_path ''new/f.txt''
   \<and> first_setting example_store (directory_chain ''new/f.txt'') = None
   \<and> (\<exists>m s'. create_metadata ''2024-01-01T00:00:00'' ''2024-01-01T00:00:01'' ''new/f.txt'' 10
          True None None None [] [] False example_store = Inr (m, s')
        \<and> is_public m = True
        \<and> map_option is_public (load_metadata s' ''new/f.txt'') = Some True)"
proof -
  let ?c = "create_metadata ''2024-01-01T00:00:00'' ''2024-01-01T00:00:01'' ''docs/sub/f.txt'' 10
          True None None None [] [] False example_store"
  let ?c' = "create_metadata ''2024-01-01T00:00:00'' ''2024-01-01T00:00:01'' ''new/f.txt'' 10
          True None None None [] [] False example_store"
  have p: "plain_path ''docs/sub/f.txt''" by code_simp
  have q: "directory_chain ''docs/sub/f.txt'' = [''docs/sub'', ''docs'']" by code_simp
  have a: "first_setting example_store (directory_chain ''docs/sub/f.txt'') = Some False"
    by code_simp
  have "\<not> isl ?c" by code_simp
  then obtain m s' where c: "?c = Inr (m, s')" by (cases ?c) auto
  have e: "\<exists>m s'. ?c = Inr (m, s') \<and> is_public m = False
        \<and> map_option is_public (load_metadata s' ''docs/sub/f.txt'') = Some False"
    using create_metadata_inherits [OF p c] a c by simp
  have p': "plain_path ''new/f.txt''" by code_simp
  have a': "first_setting example_store (directory_chain ''new/f.txt'') = None"
    by code_simp
  have "\<not> isl ?c'" by code_simp
  then obtain m' s'' where c': "?c' = Inr (m', s'')" by (cases ?c') auto
  have e': "\<exists>m s'. ?c' = Inr (m, s') \<and> is_public m = True
        \<and> map_option is_public (load_metadata s' ''new/f.txt'') = Some True"
    using create_metadata_inherits [OF p' c'] a' c' by simp
  show ?thesis by (intro conjI p q a e p' a' e')
qed

text \<open>
  Claim C3 for every spelling of a path fails. The record of a directory is found by its
  path string alone, and the lookup for \<open>docs/./f.txt\<close> asks for \<open>docs/.\<close> and then for
  \<open>.\<close>, never for \<open>docs\<close>: the file lies in the private directory \<open>docs\<close>, and the
  record is stored with the caller's \<open>is_public = True\<close>.
\<close>

theorem create_metadata_inherits_counterexample:
  "directory_chain ''docs/./f.txt'' = [''docs'']
   \<and> directory_setting example_store ''docs'' = Some False
   \<and> lookup_chain ''docs/./f.txt'' = [''docs/.'']
   \<and> returned_is_public
        (create_metadata ''2024-01-01T00:00:00'' ''2024-01-01T00:00:01'' ''docs/./f.txt'' 10
           True None None None [] [] False example_store) = Some True
   \<and> stored_is_public ''docs/./f.txt''
        (create_metadata ''2024-01-01T00:00:00'' ''2024-01-01T00:00:01'' ''docs/./f.txt'' 10
           True None None None [] [] False example_store) = Some True"
  by code_simp



text \<open>
  Claim C5. For every store and every directory path, the lookup returns: a counter of two
  more than the number of components of the path never runs out. For the empty path and
  for \<open>'.'\<close> it returns \<open>None\<close> in the first call, and for a path that is its own parent
  (the file system root) the first call returns too, without recursion.
\<close>

theorem get_directory_permission_terminates:
  "lookup_within (length (snd (parse_path p)) + 2) s p = Some (get_directory_permission s p)
   \<and> get_directory_permission s [] = None \<and> get_directory_permission s ''.'' = None
   \<and> lookup_within 1 s [] = Some None \<and> lookup_within 1 s ''.'' = Some None
   \<and> (parent_dir p = p \<longrightarrow> lookup_within 1 s p = Some (get_directory_permission s p))"
proof -
  have "walk_depth p \<le> length (snd (parse_path p)) + 2" by (simp add: walk_depth_def)
  then have "lookup_within (length (snd (parse_path p)) + 2) s p = Some (get_directory_permission s p)"
    by (rule lookup_within_enough)
  moreover have "parent_dir p = p \<longrightarrow> lookup_within 1 s p = Some (get_directory_permission s p)"
    by (simp split: option.splits)
  ultimately show ?thesis by simp
qed

theorem get_directory_permission_terminates_witness:
  "parent_dir ''/'' = ''/'' \<and> lookup_within 1 example_store ''/'' = Some (Some True)
   \<and> lookup_within 6 example_store ''pub/in/box/x'' = Some (Some True)"
proof -
  have a: "parent_dir ''/'' = ''/''" by code_simp
  have b: "get_directory_permission example_store ''/'' = Some True" by code_simp
  have c: "length (snd (parse_path ''pub/in/box/x'')) + 2 = 6" by code_simp
  have d: "get_directory_permission example_store ''pub/in/box/x'' = Some True" by code_simp
  have "parent_dir ''/'' = ''/'' \<longrightarrow>
        lookup_within 1 example_store ''/'' = Some (get_directory_permission example_store ''/'')"
    using get_directory_permission_terminates [of "''/''" example_store] by blast
  then have one: "lookup_within 1 example_store ''/'' = Some (Some True)"
    using a unfolding b by blast
  have "lookup_within (length (snd (parse_path ''pub/in/box/x'')) + 2) example_store ''pub/in/box/x''
        = Some (get_directory_permission example_store ''pub/in/box/x'')"
    using get_directory_permission_terminates [of "''pub/in/box/x''" example_store] by blast
  then have two: "lookup_within 6 example_store ''pub/in/box/x'' = Some (Some True)"
    unfolding c d .
  show ?thesis using a one two by blast
qed

text \<open>
  Claim C6. When the orphan records are no more than \<open>max_orphans_per_run\<close> and nothing
  fails, a first cleanup reports as many cleaned records as there are orphans, and a
  second cleanup, run on the world the first one left, reports none.
\<close>

theorem cleanup_twice:
  assumes "int (length (orphan_rows w)) \<le> max_orphans_per_run (config w)"
  shows "\<exists>result1 w1 result2 w2.
           cleanup_orphan_metadata no_faults clk1 False None w = (Inr result1, w1)
         \<and> orphans_cleaned result1 = length (orphan_rows w)
         \<and> cleanup_orphan_metadata no_faults clk2 False None w1 = (Inr result2, w2)
         \<and> orphans_cleaned result2 = 0"
proof -
  let ?os = "map (orphan_of w) (orphan_rows w)"
  have os: "?os = slice_to (case None of None \<Rightarrow> max_orphans_per_run (config w) | Some n \<Rightarrow> n)
                    (map (orphan_of w) (orphan_rows w))"
    using assms by (simp add: slice_to_all)
  from cleanup_no_faults [OF os, of clk1] obtain result1 w1 where
    run1: "cleanup_orphan_metadata no_faults clk1 False None w = (Inr result1, w1)"
    and n1: "orphans_cleaned result1 = length ?os"
    and root: "storage_root w1 = storage_root w" and cfg: "config w1 = config w"
    and rows: "file_metadata (db w1)
                 = filter (\<lambda>r. fm_id r \<notin> orphan_id ` set ?os) (file_metadata (db w))"
    and st: "path_status (disk w1) =
          (if backup_before_cleanup (config w) \<and> ?os \<noteq> []
           then status_after_write (disk w) (full_path_of (storage_root w) (backup_name clk1))
           else path_status (disk w))"
    by blast
  have st': "path_status (disk w1) = path_status (disk w)
         \<or> path_status (disk w1)
             = status_after_write (disk w) (full_path_of (storage_root w) (backup_name clk1))"
  proof (cases "backup_before_cleanup (config w) \<and> ?os \<noteq> []")
    case True
    show ?thesis using st unfolding if_P [OF True] by (rule disjI2)
  next
    case False
    show ?thesis using st unfolding if_not_P [OF False] by (rule disjI1)
  qed
  have none: "orphan_rows w1 = []"
  proof (rule ccontr)
    assume "orphan_rows w1 \<noteq> []"
    then obtain r where r: "r \<in> set (orphan_rows w1)" by (cases "orphan_rows w1") auto
    then have in1: "r \<in> set (file_metadata (db w1))" and o1: "is_orphan w1 r"
      by (simp_all add: set_orphan_rows)
    have in0: "r \<in> set (file_metadata (db w))" and nid: "fm_id r \<notin> orphan_id ` set ?os"
      using in1 rows by auto
    have "is_orphan w r" using is_orphan_after [OF root cfg st' o1] .
    then have "r \<in> set (orphan_rows w)" using in0 by (simp add: set_orphan_rows)
    then have "fm_id r \<in> orphan_id ` set ?os"
      by (auto simp: orphan_of_def image_iff intro!: bexI [of _ r])
    then show False using nid by simp
  qed
  have os2: "[] = slice_to (case None of None \<Rightarrow> max_orphans_per_run (config w1) | Some n \<Rightarrow> n)
                    (map (orphan_of w1) (orphan_rows w1))"
    by (simp add: none slice_to_Nil)
  from cleanup_no_faults [OF os2, of clk2] obtain result2 w2 where
    run2: "cleanup_orphan_metadata no_faults clk2 False None w1 = (Inr result2, w2)"
    and n2: "orphans_cleaned result2 = length ([] :: orphan list)"
    by blast
  show ?thesis using run1 n1 run2 n2 by auto
qed

theorem cleanup_twice_witness:
  "int (length (orphan_rows example_world)) \<le> max_orphans_per_run (config example_world)
   \<and> length (orphan_rows example_world) = 1
   \<and> (\<exists>result1 w1 result2 w2.
           cleanup_orphan_metadata no_faults example_clock False None example_world = (Inr result1, w1)
         \<and> orphans_cleaned result1 = 1
         \<and> cleanup_orphan_metadata no_faults example_clock False None w1 = (Inr result2, w2)
         \<and> orphans_cleaned result2 = 0)"
proof -
  have a: "int (length (orphan_rows example_world)) \<le> max_orphans_per_run (config example_world)"
    by code_simp
  have b: "length (orphan_rows example_world) = 1" by code_simp
  have c: "\<exists>result1 w1 result2 w2.
           cleanup_orphan_metadata no_faults example_clock False None example_world = (Inr result1, w1)
         \<and> orphans_cleaned result1 = 1
         \<and> cleanup_orphan_metadata no_faults example_clock False None w1 = (Inr result2, w2)
         \<and> orphans_cleaned result2 = 0"
    using cleanup_twice [OF a, of example_clock example_clock] unfolding b .
  show ?thesis by (intro conjI a b c)
qed

text \<open>
  Claim C7. In a store whose row ids are distinct, with exactly ten orphan records and
  nothing failing, a cleanup with \<open>max_orphans = 3\<close> reports three cleaned records and
  deletes the first three orphans in the order in which the consistency check meets
  them, and the next consistency check reports the other seven, provided the backup file
  that the run writes is not the file of one of those seven: none of their paths leads to
  it, be it by the same spelling, another spelling or a symbolic link (no backup is
  written when \<open>backup_before_cleanup\<close> is off).
\<close>

theorem cleanup_capped:
  assumes ten: "length (orphan_rows w) = 10"
    and ids: "distinct (map fm_id (file_metadata (db w)))"
    and free: "backup_before_cleanup (config w) \<longrightarrow>
                 (\<forall>r\<in>set (drop 3 (orphan_rows w)).
                    leads_to (disk w) (full_path_of (storage_root w) (fm_file_path r))
                      \<noteq> leads_to (disk w) (full_path_of (storage_root w) (backup_name clk)))"
  shows "\<exists>result w1.
           cleanup_orphan_metadata no_faults clk False (Some 3) w = (Inr result, w1)
         \<and> orphans_cleaned result = 3
         \<and> file_metadata (db w1)
             = filter (\<lambda>r. r \<notin> set (take 3 (orphan_rows w))) (file_metadata (db w))
         \<and> orphan_rows w1 = drop 3 (orphan_rows w)
         \<and> length (orphan_metadata (check_consistency no_faults w1)) = 7"
proof -
  let ?X = "orphan_rows w"
  let ?T = "take 3 ?X"
  let ?rows = "file_metadata (db w)"
  let ?S = "select_id_file_path (db w)"
  let ?os = "map (orphan_of w) ?T"
  let ?b = "full_path_of (storage_root w) (backup_name clk)"
  have os: "?os = slice_to (case Some 3 of None \<Rightarrow> max_orphans_per_run (config w) | Some n \<Rightarrow> n)
                    (map (orphan_of w) ?X)"
    by (simp add: slice_to_def take_map)
  from cleanup_no_faults [OF os, of clk] obtain result w1 where
    run: "cleanup_orphan_metadata no_faults clk False (Some 3) w = (Inr result, w1)"
    and n: "orphans_cleaned result = length ?os"
    and root: "storage_root w1 = storage_root w" and cfg: "config w1 = config w"
    and rows: "file_metadata (db w1) = filter (\<lambda>r. fm_id r \<notin> orphan_id ` set ?os) ?rows"
    and st: "path_status (disk w1) =
          (if backup_before_cleanup (config w) \<and> ?os \<noteq> []
           then status_after_write (disk w) ?b
           else path_status (disk w))"
    by blast
  have three: "orphans_cleaned result = 3" using n ten by simp
  have sub: "set ?T \<subseteq> set ?rows"
    using set_take_subset [of 3 ?X] by (auto simp: set_orphan_rows)
  have inj: "inj_on fm_id (set ?rows)" using ids by (simp add: distinct_map)
  have img: "orphan_id ` set ?os = fm_id ` set ?T"
    by (simp add: image_image orphan_of_def)
  have mem: "fm_id r \<in> fm_id ` set ?T \<longleftrightarrow> r \<in> set ?T" if "r \<in> set ?rows" for r
    using inj_on_image_mem_iff [OF inj that sub] .
  have rows': "file_metadata (db w1) = filter (\<lambda>r. r \<notin> set ?T) ?rows"
    unfolding rows img using mem by (intro filter_cong) auto
  have "distinct ?rows" using ids by (simp add: distinct_map)
  then have dX: "distinct ?X" by (simp add: orphan_rows_filter)
  have same: "is_orphan w1 r \<longleftrightarrow> is_orphan w r" if r: "r \<in> set ?rows" "r \<notin> set ?T" for r
  proof
    assume o1: "is_orphan w1 r"
    have st': "path_status (disk w1) = path_status (disk w)
         \<or> path_status (disk w1) = status_after_write (disk w) ?b"
    proof (cases "backup_before_cleanup (config w) \<and> ?os \<noteq> []")
      case True
      show ?thesis using st unfolding if_P [OF True] by (rule disjI2)
    next
      case False
      show ?thesis using st unfolding if_not_P [OF False] by (rule disjI1)
    qed
    show "is_orphan w r" using is_orphan_after [OF root cfg st' o1] .
  next
    assume o: "is_orphan w r"
    then have "r \<in> set ?X" using r(1) by (simp add: set_orphan_rows)
    moreover have "set ?X = set ?T \<union> set (drop 3 ?X)"
      using set_append [of ?T "drop 3 ?X"] by simp
    ultimately have inD: "r \<in> set (drop 3 ?X)" using r(2) by blast
    have st'': "path_status (disk w1) = path_status (disk w)
         \<or> (path_status (disk w1) = status_after_write (disk w) ?b
             \<and> leads_to (disk w) (full_path_of (storage_root w) (fm_file_path r))
                 \<noteq> leads_to (disk w) ?b)"
    proof (cases "backup_before_cleanup (config w) \<and> ?os \<noteq> []")
      case True
      have up: "path_status (disk w1) = status_after_write (disk w) ?b"
        using st unfolding if_P [OF True] .
      have "\<forall>r\<in>set (drop 3 ?X).
              leads_to (disk w) (full_path_of (storage_root w) (fm_file_path r))
                \<noteq> leads_to (disk w) ?b"
        using free True by blast
      then have "leads_to (disk w) (full_path_of (storage_root w) (fm_file_path r))
                   \<noteq> leads_to (disk w) ?b"
        using inD by (rule bspec)
      then show ?thesis using up by blast
    next
      case False
      show ?thesis using st unfolding if_not_P [OF False] by (rule disjI1)
    qed
    show "is_orphan w1 r" using is_orphan_kept [OF root cfg st'' o] .
  qed
  have "orphan_rows w1
          = filter (is_orphan w1) (sort_key fm_file_path (filter (\<lambda>r. r \<notin> set ?T) ?rows))"
    by (simp only: orphan_rows_def select_id_file_path_def rows')
  also have "\<dots> = filter (is_orphan w1) (filter (\<lambda>r. r \<notin> set ?T) ?S)"
    by (simp only: select_id_file_path_def filter_sort)
  also have "\<dots> = filter (is_orphan w) (filter (\<lambda>r. r \<notin> set ?T) ?S)"
    using same by (intro filter_cong) (auto simp: select_id_file_path_def)
  also have "\<dots> = filter (\<lambda>r. r \<notin> set ?T) (filter (is_orphan w) ?S)"
    by (simp add: conj_commute)
  also have "\<dots> = filter (\<lambda>r. r \<notin> set (take 3 ?X)) ?X"
    by (simp only: orphan_rows_def)
  also have "\<dots> = drop 3 ?X" using dX by (rule filter_not_in_take)
  finally have rest: "orphan_rows w1 = drop 3 ?X" .
  have "orphan_metadata (check_consistency no_faults w1) = map (orphan_of w1) (orphan_rows w1)"
    by (simp add: check_consistency_orphans no_faults_def)
  then have seven: "length (orphan_metadata (check_consistency no_faults w1)) = 7"
    using rest ten by simp
  show ?thesis using run three rows' rest seven by blast
qed

text \<open>
  On ten rows \<open>f1.txt\<close>, ..., \<open>f10.txt\<close> with the ids 1 to 10 the check meets the rows in
  the order of their paths, so the run deletes the rows 1, 10 and 2.
\<close>

theorem cleanup_capped_witness:
  "length (orphan_rows (ten_rows_world [''.tmp''] ''f10.txt'')) = 10
   \<and> distinct (map fm_id (file_metadata (db (ten_rows_world [''.tmp''] ''f10.txt''))))
   \<and> backup_before_cleanup (config (ten_rows_world [''.tmp''] ''f10.txt''))
   \<and> leads_to (disk (ten_rows_world [''.tmp''] ''f10.txt''))
         (full_path_of (storage_root (ten_rows_world [''.tmp''] ''f10.txt''))
            (backup_name example_clock))
       \<notin> (\<lambda>r. leads_to (disk (ten_rows_world [''.tmp''] ''f10.txt''))
                 (full_path_of (storage_root (ten_rows_world [''.tmp''] ''f10.txt''))
                    (fm_file_path r)))
            ` set (drop 3 (orphan_rows (ten_rows_world [''.tmp''] ''f10.txt'')))
   \<and> map fm_id (take 3 (orphan_rows (ten_rows_world [''.tmp''] ''f10.txt''))) = [1, 10, 2]
   \<and> (\<exists>result w1.
           cleanup_orphan_metadata no_faults example_clock False (Some 3)
             (ten_rows_world [''.tmp''] ''f10.txt'') = (Inr result, w1)
         \<and> orphans_cleaned result = 3
         \<and> map fm_id (file_metadata (db w1)) = [3, 4, 5, 6, 7, 8, 9]
         \<and> orphan_rows w1 = drop 3 (orphan_rows (ten_rows_world [''.tmp''] ''f10.txt''))
         \<and> length (orphan_metadata (check_consistency no_faults w1)) = 7)"
proof -
  let ?w = "ten_rows_world [''.tmp''] ''f10.txt''"
  have a: "length (orphan_rows ?w) = 10" by code_simp
  have b: "distinct (map fm_id (file_metadata (db ?w)))" by code_simp
  have c: "backup_before_cleanup (config ?w)" by code_simp
  have d: "leads_to (disk ?w) (full_path_of (storage_root ?w) (backup_name example_clock))
       \<notin> (\<lambda>r. leads_to (disk ?w) (full_path_of (storage_root ?w) (fm_file_path r)))
            ` set (drop 3 (orphan_rows ?w))"
    by code_simp
  have "\<forall>r\<in>set (drop 3 (orphan_rows ?w)).
         leads_to (disk ?w) (full_path_of (storage_root ?w) (fm_file_path r))
         \<noteq> leads_to (disk ?w) (full_path_of (storage_root ?w) (backup_name example_clock))"
    using d by (rule not_in_imageD)
  then have d': "backup_before_cleanup (config ?w) \<longrightarrow>
        (\<forall>r\<in>set (drop 3 (orphan_rows ?w)).
         leads_to (disk ?w) (full_path_of (storage_root ?w) (fm_file_path r))
         \<noteq> leads_to (disk ?w) (full_path_of (storage_root ?w) (backup_name example_clock)))"
    by (rule impI)
  have f: "map fm_id (take 3 (orphan_rows ?w)) = [1, 10, 2]" by code_simp
  have g: "map fm_id (filter (\<lambda>r. r \<notin> set (take 3 (orphan_rows ?w))) (file_metadata (db ?w)))
             = [3, 4, 5, 6, 7, 8, 9]" by code_simp
  from cleanup_capped [OF a b d'] obtain result w1 where
    r1: "cleanup_orphan_metadata no_faults example_clock False (Some 3) ?w = (Inr result, w1)"
    and r2: "orphans_cleaned result = 3"
    and r3: "file_metadata (db w1)
               = filter (\<lambda>r. r \<notin> set (take 3 (orphan_rows ?w))) (file_metadata (db ?w))"
    and r4: "orphan_rows w1 = drop 3 (orphan_rows ?w)"
    and r5: "length (orphan_metadata (check_consistency no_faults w1)) = 7"
    by blast
  have r3': "map fm_id (file_metadata (db w1)) = [3, 4, 5, 6, 7, 8, 9]"
    unfolding r3 by (rule g)
  have e: "\<exists>result w1.
           cleanup_orphan_metadata no_faults example_clock False (Some 3) ?w = (Inr result, w1)
         \<and> orphans_cleaned result = 3
         \<and> map fm_id (file_metadata (db w1)) = [3, 4, 5, 6, 7, 8, 9]
         \<and> orphan_rows w1 = drop 3 (orphan_rows ?w)
         \<and> length (orphan_metadata (check_consistency no_faults w1)) = 7"
    by (intro exI [of _ result] exI [of _ w1] conjI r1 r2 r3' r4 r5)
  show ?thesis by (intro conjI a b c d f e)
qed

text \<open>
  Claim C7 without the proviso fails. With no exclude pattern configured, a row may name
  the very backup file that the run writes; under the patterns of \<open>CleanupConfig()\<close>, a
  row may name a symbolic link to it. In both worlds the backup file exists after the
  run, the row is no orphan any more, and the next check reports six orphans, not seven.
\<close>

theorem cleanup_capped_counterexample:
  "length (orphan_rows (ten_rows_world [] ''metadata_backup_20240601_120000.json'')) = 10
   \<and> map_sum id orphans_cleaned
        (fst (cleanup_orphan_metadata no_faults example_clock False (Some 3)
               (ten_rows_world [] ''metadata_backup_20240601_120000.json''))) = Inr 3
   \<and> length (orphan_metadata (check_consistency no_faults
        (snd (cleanup_orphan_metadata no_faults example_clock False (Some 3)
               (ten_rows_world [] ''metadata_backup_20240601_120000.json''))))) = 6
   \<and> length (orphan_rows (ten_rows_world (exclude_patterns default_config) ''latest.json'')) = 10
   \<and> map_sum id orphans_cleaned
        (fst (cleanup_orphan_metadata no_faults example_clock False (Some 3)
               (ten_rows_world (exclude_patterns default_config) ''latest.json''))) = Inr 3
   \<and> length (orphan_metadata (check_consistency no_faults
        (snd (cleanup_orphan_metadata no_faults example_clock False (Some 3)
               (ten_rows_world (exclude_patterns default_config) ''latest.json''))))) = 6"
  by code_simp

text \<open>
  Claim C8. A dry run returns a result and leaves the world as it was: the tables of the
  database, the cleanup log and the files on disk, backup files among them. A consistency
  check after it therefore reports what it would have reported before.
\<close>

theorem dry_run_changes_nothing:
  "snd (cleanup_orphan_metadata f clk True max_orphans w) = w
   \<and> (\<exists>result. fst (cleanup_orphan_metadata f clk True max_orphans w) = Inr result)
   \<and> check_consistency f' (snd (cleanup_orphan_metadata f clk True max_orphans w))
       = check_consistency f' w"
proof -
  obtain result where "cleanup_orphan_metadata f clk True max_orphans w = (Inr result, w)"
    using cleanup_dry_run by blast
  then show ?thesis by simp
qed

theorem dry_run_changes_nothing_witness:
  "snd (cleanup_orphan_metadata no_faults example_clock True None example_world) = example_world
   \<and> map_sum id orphans_found
        (fst (cleanup_orphan_metadata no_faults example_clock True None example_world)) = Inr 1
   \<and> map_sum id orphans_cleaned
        (fst (cleanup_orphan_metadata no_faults example_clock True None example_world)) = Inr 0"
proof -
  have a: "map_sum id orphans_found
        (fst (cleanup_orphan_metadata no_faults example_clock True None example_world)) = Inr 1"
    by code_simp
  have b: "map_sum id orphans_cleaned
        (fst (cleanup_orphan_metadata no_faults example_clock True None example_world)) = Inr 0"
    by code_simp
  show ?thesis
    using dry_run_changes_nothing [of no_faults example_clock None example_world no_faults] a b
    by blast
qed

text \<open>
  Claim C9. A path in which a configured exclude pattern occurs as a substring is the
  path of no entry of \<open>orphan_metadata\<close>, whether or not its file is on disk and whatever
  fails during the check.
\<close>

theorem excluded_never_orphan:
  assumes "pattern \<in> set (exclude_patterns (config w))" and "file_path = u @ pattern @ v"
  shows "\<forall>orphan\<in>set (orphan_metadata (check_consistency f w)).
           orphan_file_path orphan \<noteq> file_path"
proof -
  have "str_in pattern file_path" using assms(2) str_in_iff by blast
  then have "should_exclude_file w file_path"
    using assms(1) by (auto simp: should_exclude_file_def matches_any_iff)
  then show ?thesis
    by (auto simp: check_consistency_orphans orphan_rows_def is_orphan_def orphan_of_def)
qed

theorem excluded_never_orphan_witness:
  "''.tmp'' \<in> set (exclude_patterns (config example_world))
   \<and> ''foo.tmp'' = ''foo'' @ ''.tmp'' @ []
   \<and> ''foo.tmp'' \<in> set (map fm_file_path (file_metadata (db example_world)))
   \<and> path_status (disk example_world) (full_path_of (storage_root example_world) ''foo.tmp'') = Missing
   \<and> map orphan_file_path (orphan_metadata (check_consistency no_faults example_world)) = [''a.txt'']
   \<and> ''foo.tmp'' \<notin> orphan_file_path ` set (orphan_metadata (check_consistency no_faults example_world))"
proof -
  have a: "''.tmp'' \<in> set (exclude_patterns (config example_world))" by code_simp
  have b: "''foo.tmp'' = ''foo'' @ ''.tmp'' @ []" by simp
  have c: "''foo.tmp'' \<in> set (map fm_file_path (file_metadata (db example_world)))" by code_simp
  have d: "path_status (disk example_world) (full_path_of (storage_root example_world) ''foo.tmp'') = Missing"
    by code_simp
  have e: "map orphan_file_path (orphan_metadata (check_consistency no_faults example_world)) = [''a.txt'']"
    by code_simp
  have n: "''foo.tmp'' \<notin> orphan_file_path ` set (orphan_metadata (check_consistency no_faults example_world))"
    using excluded_never_orphan [OF a b, of no_faults] by (rule not_in_image)
  show ?thesis by (intro conjI a b c d e n)
qed

text \<open>
  Claim C10. A record with distinct tags (and a size that fits an \<open>INTEGER\<close> column) is
  saved, and \<open>load_metadata\<close> then returns its tags as the sorted list of the set of tags:
  ascending, and determined by the set alone, whatever their order in the record.
\<close>

theorem load_tags_sorted:
  assumes "store_ok s" and "distinct (tags r)" and "int64_ok (file_size r)"
  shows "\<exists>m s'. save_metadata now p r s = Inr (m, s')
           \<and> map_option tags (load_metadata s' p) = Some (sorted_list_of_set (set (tags r)))"
proof -
  obtain m s' where sv: "save_metadata now p r s = Inr (m, s')"
    using save_metadata_succeeds [OF assms] by blast
  have "sort (tags r) = sorted_list_of_set (set (tags r))"
    using assms(2) by (simp add: sorted_list_of_set_sort_remdups distinct_remdups_id)
  then show ?thesis using load_after_save(2) [OF sv assms(1)] sv by simp
qed

theorem load_tags_sorted_witness:
  "store_ok empty_store \<and> distinct (tags example_record) \<and> int64_ok (file_size example_record)
   \<and> save_metadata ''2024-06-01T12:00:00'' ''a.txt'' example_record empty_store
       = Inr (example_record\<lparr>last_modified := ''2024-06-01T12:00:00''\<rparr>, saved_store)
   \<and> tags example_record = [''b'', ''a'', ''c'']
   \<and> map_option tags (load_metadata saved_store ''a.txt'') = Some [''a'', ''b'', ''c'']"
proof -
  have d: "distinct (tags example_record)" by code_simp
  have z: "int64_ok (file_size example_record)" by code_simp
  have s: "save_metadata ''2024-06-01T12:00:00'' ''a.txt'' example_record empty_store
       = Inr (example_record\<lparr>last_modified := ''2024-06-01T12:00:00''\<rparr>, saved_store)"
    by code_simp
  have t: "tags example_record = [''b'', ''a'', ''c'']" by code_simp
  have v: "sorted_list_of_set (set (tags example_record)) = [''a'', ''b'', ''c'']" by code_simp
  from load_tags_sorted [OF store_ok_empty d z, of "''2024-06-01T12:00:00''" "''a.txt''"]
  have "map_option tags (load_metadata saved_store ''a.txt'') = Some [''a'', ''b'', ''c'']"
    unfolding s v by simp
  then show ?thesis using store_ok_empty d z s t by blast
qed

end
